theory Spec2Isabelle
  imports Main
begin

section \<open>Python strings\<close>

text \<open>
  A Python \<open>str\<close> is modelled as a \<open>string\<close>: one \<open>char\<close> per code point, which
  covers the code points below 256. \<open>length\<close> is Python's \<open>len\<close> on such strings.
\<close>

definition py_replace :: "char \<Rightarrow> string \<Rightarrow> string \<Rightarrow> string" where
  \<comment> \<open>\<open>s.replace(old, new)\<close> for a one-character \<open>old\<close>.\<close>
  "py_replace old new s = concat (map (\<lambda>c. if c = old then new else [c]) s)"

definition py_strip_chars :: "string \<Rightarrow> string \<Rightarrow> string" where
  \<comment> \<open>\<open>s.strip(chars)\<close>: drops leading and trailing characters that are in \<open>chars\<close>.\<close>
  "py_strip_chars cs s =
     rev (dropWhile (\<lambda>c. c \<in> set cs) (rev (dropWhile (\<lambda>c. c \<in> set cs) s)))"

definition py_slice_to :: "int \<Rightarrow> 'a list \<Rightarrow> 'a list" where
  \<comment> \<open>\<open>xs[:n]\<close>: a negative \<open>n\<close> counts from the end.\<close>
  "py_slice_to n xs =
     (if 0 \<le> n then take (nat n) xs else take (nat (int (length xs) + n)) xs)"

definition py_rsplit1 :: "char \<Rightarrow> string \<Rightarrow> string \<times> string" where
  \<comment> \<open>\<open>s.rsplit(sep, 1)\<close> when \<open>sep\<close> occurs in \<open>s\<close>: the text before and after the last \<open>sep\<close>.\<close>
  "py_rsplit1 sep s =
     (rev (drop 1 (dropWhile (\<lambda>c. c \<noteq> sep) (rev s))), rev (takeWhile (\<lambda>c. c \<noteq> sep) (rev s)))"

section \<open>Filename and folder-name sanitizers\<close>

subsection \<open>\<open>BaseAsyncDownloader.sanitize_filename\<close> (downloaders/base_async.py)\<close>

definition unsafe_chars :: "char list" where
  "unsafe_chars =
     [CHR ''/'', CHR 0x5C, CHR '':'', CHR ''*'', CHR ''?'', CHR 0x22, CHR ''<'', CHR ''>'',
      CHR ''|'', CHR 0x00, CHR ''$'', CHR ''#'', CHR ''@'', CHR ''&'', CHR ''%'', CHR ''!'',
      CHR 0x60, CHR ''^'', CHR ''('', CHR '')'', CHR ''{'', CHR ''}'', CHR ''['', CHR '']'',
      CHR ''='', CHR ''+'', CHR ''~'', CHR '','', CHR '';'']"

definition sanitize_filename :: "string \<Rightarrow> string" where
  "sanitize_filename filename =
     (let safe_name = fold (\<lambda>ch s. py_replace ch ''_'' s) unsafe_chars filename;
          safe_name = py_replace CHR '' '' ''_'' safe_name;
          safe_name = py_strip_chars ''. '' safe_name
      in if safe_name = [] then ''unnamed'' else safe_name)"

subsection \<open>\<open>AsyncDirectoryManager\<close> (utils/directory_manager_async.py)\<close>

definition dm_unsafe_chars :: "char list" where
  \<comment> \<open>The members of the character class \<open>self.unsafe_chars\<close>.\<close>
  "dm_unsafe_chars =
     [CHR '':'', CHR ''*'', CHR ''?'', CHR 0x22, CHR ''<'', CHR ''>'', CHR ''|'', CHR ''$'',
      CHR ''#'', CHR ''@'', CHR ''&'', CHR ''%'', CHR ''!'', CHR 0x60, CHR ''^'', CHR ''('',
      CHR '')'', CHR ''{'', CHR ''}'', CHR ''['', CHR '']'', CHR ''='', CHR ''+'', CHR ''~'',
      CHR '','', CHR '';'', CHR ''~'', CHR 0x00]"

definition max_folder_name_length :: nat where
  "max_folder_name_length = 90"

definition sanitize_folder_name :: "string \<Rightarrow> string" where
  \<comment> \<open>\<open>_sanitize_folder_name\<close>: \<open>re.sub(self.unsafe_chars, '', folder_name)\<close>.\<close>
  "sanitize_folder_name folder_name = filter (\<lambda>c. c \<notin> set dm_unsafe_chars) folder_name"

definition truncate_folder_name :: "string \<Rightarrow> string" where
  "truncate_folder_name folder_name =
     (if length folder_name > max_folder_name_length
      then take max_folder_name_length folder_name else folder_name)"

definition replace_spaces_with_underscores :: "string \<Rightarrow> string" where
  "replace_spaces_with_underscores folder_name = py_replace CHR '' '' ''_'' folder_name"

definition create_folder_name :: "string \<Rightarrow> string" where
  \<comment> \<open>The name \<open>create_folder\<close> builds, creates and returns.\<close>
  "create_folder_name folder_name =
     replace_spaces_with_underscores (truncate_folder_name (sanitize_folder_name folder_name))"

definition dm_sanitize_filename :: "string \<Rightarrow> string" where
  \<comment> \<open>\<open>AsyncDirectoryManager.sanitize_filename\<close>.\<close>
  "dm_sanitize_filename filename =
     (let sanitized = filter (\<lambda>c. c \<notin> set dm_unsafe_chars) filename;
          sanitized = py_replace CHR '' '' ''_'' sanitized;
          sanitized =
            (if length sanitized > 200 then
               (let (name_part, ext_part) =
                      (if CHR ''.'' \<in> set sanitized then py_rsplit1 CHR ''.'' sanitized
                       else (sanitized, ''''));
                    max_name_len =
                      (if ext_part \<noteq> [] then 200 - int (length ext_part) - 1 else 200)
                in py_slice_to max_name_len name_part
                   @ (if ext_part \<noteq> [] then ''.'' @ ext_part else ''''))
             else sanitized)
      in if sanitized = [] \<or> sanitized = ''.'' then ''unnamed'' else sanitized)"

definition dm_clean :: "string \<Rightarrow> string" where
  \<comment> \<open>The name after the first two steps of \<open>AsyncDirectoryManager.sanitize_filename\<close>, before
      it is truncated.\<close>
  "dm_clean filename = py_replace CHR '' '' ''_'' (filter (\<lambda>c. c \<notin> set dm_unsafe_chars) filename)"

definition extension :: "string \<Rightarrow> string" where
  \<comment> \<open>\<open>ext_part\<close> of the truncation: the text after the last dot, empty without a dot.\<close>
  "extension s = (if CHR ''.'' \<in> set s then snd (py_rsplit1 CHR ''.'' s) else [])"

section \<open>Python values\<close>

text \<open>
  A decoded JSON document, as \<open>response.json()\<close> returns it. Numbers with a fraction are
  left out: no function below computes with them.
\<close>

datatype json =
    JNull
  | JBool bool
  | JInt int
  | JStr string
  | JList "json list"
  | JDict "(string \<times> json) list"

datatype exn =
    KeyError string
  | AttributeError string
  | TypeError string
  | IndexError string
  | OSError string
  | ClientError string
  | ValueError string

definition sq :: string where
  \<comment> \<open>The single quote.\<close>
  "sq = [CHR 0x27]"

fun str_exn :: "exn \<Rightarrow> string" where
  \<comment> \<open>\<open>str(e)\<close>, as the f-string \<open>f"Error: {e}"\<close> renders it.\<close>
  "str_exn (KeyError k) = sq @ k @ sq"
| "str_exn (AttributeError m) = m"
| "str_exn (TypeError m) = m"
| "str_exn (IndexError m) = m"
| "str_exn (OSError m) = m"
| "str_exn (ClientError m) = m"
| "str_exn (ValueError m) = m"

fun type_name :: "json \<Rightarrow> string" where
  "type_name JNull = ''NoneType''"
| "type_name (JBool b) = ''bool''"
| "type_name (JInt i) = ''int''"
| "type_name (JStr s) = ''str''"
| "type_name (JList xs) = ''list''"
| "type_name (JDict kvs) = ''dict''"

fun truthy :: "json \<Rightarrow> bool" where
  "truthy JNull = False"
| "truthy (JBool b) = b"
| "truthy (JInt i) = (i \<noteq> 0)"
| "truthy (JStr s) = (s \<noteq> [])"
| "truthy (JList xs) = (xs \<noteq> [])"
| "truthy (JDict kvs) = (kvs \<noteq> [])"

fun py_getitem :: "json \<Rightarrow> string \<Rightarrow> exn + json" where
  \<comment> \<open>\<open>x[key]\<close> for a string \<open>key\<close>.\<close>
  "py_getitem (JDict kvs) k = (case map_of kvs k of None \<Rightarrow> Inl (KeyError k) | Some v \<Rightarrow> Inr v)"
| "py_getitem (JList xs) k = Inl (TypeError ''list indices must be integers or slices, not str'')"
| "py_getitem (JStr s) k = Inl (TypeError (''string indices must be integers, not '' @ sq @ ''str'' @ sq))"
| "py_getitem x k = Inl (TypeError (sq @ type_name x @ sq @ '' object is not subscriptable''))"

fun py_get :: "json \<Rightarrow> string \<Rightarrow> json \<Rightarrow> exn + json" where
  \<comment> \<open>\<open>x.get(key, default)\<close>: only a dict has the method.\<close>
  "py_get (JDict kvs) k dflt = (case map_of kvs k of None \<Rightarrow> Inr dflt | Some v \<Rightarrow> Inr v)"
| "py_get x k dflt =
     Inl (AttributeError (sq @ type_name x @ sq @ '' object has no attribute '' @ sq @ ''get'' @ sq))"

fun py_iter :: "json \<Rightarrow> exn + json list" where
  \<comment> \<open>The elements a \<open>for\<close> loop (or \<open>list.extend\<close>) draws from \<open>x\<close>.\<close>
  "py_iter (JList xs) = Inr xs"
| "py_iter (JDict kvs) = Inr (map (\<lambda>kv. JStr (fst kv)) kvs)"
| "py_iter (JStr s) = Inr (map (\<lambda>c. JStr [c]) s)"
| "py_iter x = Inl (TypeError (sq @ type_name x @ sq @ '' object is not iterable''))"

fun is_substring :: "string \<Rightarrow> string \<Rightarrow> bool" where
  "is_substring p [] = (p = [])"
| "is_substring p (c # cs) = (take (length p) (c # cs) = p \<or> is_substring p cs)"

fun str_in :: "string \<Rightarrow> json \<Rightarrow> exn + bool" where
  \<comment> \<open>\<open>s in x\<close> for a string \<open>s\<close>.\<close>
  "str_in s (JDict kvs) = Inr (s \<in> set (map fst kvs))"
| "str_in s (JList xs) = Inr (JStr s \<in> set xs)"
| "str_in s (JStr t) = Inr (is_substring s t)"
| "str_in s x = Inl (TypeError (''argument of type '' @ sq @ type_name x @ sq @ '' is not iterable''))"

definition digit_char :: "nat \<Rightarrow> char" where
  "digit_char n = ''0123456789'' ! (n mod 10)"

fun str_nat :: "nat \<Rightarrow> string" where
  "str_nat n = (if n < 10 then [digit_char n] else str_nat (n div 10) @ [digit_char (n mod 10)])"

definition str_int :: "int \<Rightarrow> string" where
  "str_int i = (if i < 0 then CHR ''-'' # str_nat (nat (- i)) else str_nat (nat i))"

fun py_str :: "(json \<Rightarrow> string) \<Rightarrow> json \<Rightarrow> string" where
  \<comment> \<open>\<open>str(x)\<close>, also what an f-string puts for \<open>{x}\<close>. The text of a list or a dict is
      Python's \<open>repr\<close>, taken as the parameter \<open>rp\<close>.\<close>
  "py_str rp JNull = ''None''"
| "py_str rp (JBool b) = (if b then ''True'' else ''False'')"
| "py_str rp (JInt i) = str_int i"
| "py_str rp (JStr s) = s"
| "py_str rp x = rp x"

definition whitespace_chars :: "char list" where
  \<comment> \<open>The code points below 256 on which \<open>str.isspace\<close> holds.\<close>
  "whitespace_chars =
     [CHR 0x09, CHR 0x0A, CHR 0x0B, CHR 0x0C, CHR 0x0D, CHR 0x1C, CHR 0x1D, CHR 0x1E, CHR 0x1F,
      CHR 0x20, CHR 0x85, CHR 0xA0]"

definition is_space :: "char \<Rightarrow> bool" where
  "is_space c = (c \<in> set whitespace_chars)"

definition py_strip :: "string \<Rightarrow> string" where
  \<comment> \<open>\<open>s.strip()\<close>.\<close>
  "py_strip s = rev (dropWhile is_space (rev (dropWhile is_space s)))"

definition upper_chars :: "char list" where
  \<comment> \<open>The code points below 256 that \<open>str.lower\<close> changes.\<close>
  "upper_chars =
     ''ABCDEFGHIJKLMNOPQRSTUVWXYZ'' @ [CHR 0xC0, CHR 0xC1, CHR 0xC2, CHR 0xC3, CHR 0xC4, CHR
       0xC5, CHR 0xC6, CHR 0xC7, CHR 0xC8, CHR 0xC9, CHR 0xCA, CHR 0xCB, CHR 0xCC, CHR 0xCD,
       CHR 0xCE, CHR 0xCF, CHR 0xD0, CHR 0xD1, CHR 0xD2, CHR 0xD3, CHR 0xD4, CHR 0xD5, CHR
       0xD6, CHR 0xD8, CHR 0xD9, CHR 0xDA, CHR 0xDB, CHR 0xDC, CHR 0xDD, CHR 0xDE]"

definition lower_chars :: "char list" where
  "lower_chars =
     ''abcdefghijklmnopqrstuvwxyz'' @ [CHR 0xE0, CHR 0xE1, CHR 0xE2, CHR 0xE3, CHR 0xE4, CHR
       0xE5, CHR 0xE6, CHR 0xE7, CHR 0xE8, CHR 0xE9, CHR 0xEA, CHR 0xEB, CHR 0xEC, CHR 0xED,
       CHR 0xEE, CHR 0xEF, CHR 0xF0, CHR 0xF1, CHR 0xF2, CHR 0xF3, CHR 0xF4, CHR 0xF5, CHR
       0xF6, CHR 0xF8, CHR 0xF9, CHR 0xFA, CHR 0xFB, CHR 0xFC, CHR 0xFD, CHR 0xFE]"

definition lower_char :: "char \<Rightarrow> char" where
  \<comment> \<open>\<open>str.lower\<close> on one code point below 256.\<close>
  "lower_char c = (case map_of (zip upper_chars lower_chars) c of None \<Rightarrow> c | Some l \<Rightarrow> l)"

definition py_lower :: "string \<Rightarrow> string" where
  "py_lower s = map lower_char s"

definition py_rstrip_char :: "char \<Rightarrow> string \<Rightarrow> string" where
  \<comment> \<open>\<open>s.rstrip(c)\<close> for one character \<open>c\<close>.\<close>
  "py_rstrip_char c s = rev (dropWhile (\<lambda>x. x = c) (rev s))"

fun split_on :: "(char \<Rightarrow> bool) \<Rightarrow> string \<Rightarrow> string list" where
  \<comment> \<open>The pieces of \<open>s\<close> between the characters that satisfy \<open>sep\<close>.\<close>
  "split_on sep [] = [[]]"
| "split_on sep (c # cs) =
     (if sep c then [] # split_on sep cs
      else (case split_on sep cs of [] \<Rightarrow> [[c]] | p # ps \<Rightarrow> (c # p) # ps))"

section \<open>Paths and the file system\<close>

text \<open>
  A \<open>pathlib.Path\<close> on a POSIX system: whether it is absolute, and its components. A file
  system is the set of its directories and the contents of its regular files; the current
  directory and the root always exist.
\<close>

type_synonym path = "bool \<times> string list"

definition path_of :: "string \<Rightarrow> path" where
  \<comment> \<open>\<open>Path(s)\<close>: empty and \<open>.\<close> components are dropped.\<close>
  "path_of s =
     (take 1 s = ''/'',
      filter (\<lambda>c. c \<noteq> [] \<and> c \<noteq> ''.'') (split_on (\<lambda>c. c = CHR ''/'') s))"

definition path_join :: "path \<Rightarrow> string \<Rightarrow> path" where
  \<comment> \<open>\<open>p / s\<close>: an absolute \<open>s\<close> replaces \<open>p\<close>.\<close>
  "path_join p s = (let q = path_of s in if fst q then q else (fst p, snd p @ snd q))"

definition parent :: "path \<Rightarrow> path" where
  "parent p = (fst p, butlast (snd p))"

fun join_with :: "string \<Rightarrow> string list \<Rightarrow> string" where
  "join_with sep [] = []"
| "join_with sep [x] = x"
| "join_with sep (x # y # ys) = x @ sep @ join_with sep (y # ys)"

definition path_str :: "path \<Rightarrow> string" where
  \<comment> \<open>\<open>str(p)\<close>.\<close>
  "path_str p =
     (if fst p then ''/'' @ join_with ''/'' (snd p)
      else if snd p = [] then ''.'' else join_with ''/'' (snd p))"

record filesystem =
  dirs :: "path set"
  files :: "path \<Rightarrow> string option"

definition is_dir :: "filesystem \<Rightarrow> path \<Rightarrow> bool" where
  "is_dir f p = (snd p = [] \<or> p \<in> dirs f)"

definition is_file :: "filesystem \<Rightarrow> path \<Rightarrow> bool" where
  "is_file f p = (files f p \<noteq> None)"

definition path_exists :: "filesystem \<Rightarrow> path \<Rightarrow> bool" where
  \<comment> \<open>\<open>p.exists()\<close>.\<close>
  "path_exists f p = (is_dir f p \<or> is_file f p)"

definition ancestors_and_self :: "path \<Rightarrow> path list" where
  \<comment> \<open>The path and every directory above it, the root or current directory apart.\<close>
  "ancestors_and_self p = map (\<lambda>n. (fst p, take n (snd p))) [1 ..< Suc (length (snd p))]"

section \<open>The world outside the program\<close>

text \<open>
  What the network and the operating system answer is a parameter of every run. The
  \<open>n\<close>-th interaction with the outside (an HTTP request, a file-system call) gets the answer
  the world holds for \<open>n\<close>: \<open>http\<close> is the server's answer to a request for a URL, \<open>fault\<close> an
  error the operating system raises on a file-system call (permissions, a full disk).
  \<open>repr\<close> and \<open>dumps\<close> are Python's \<open>repr\<close> of a list or dict and \<open>json.dumps\<close>, and
  \<open>percent i n\<close> is the floating-point value \<open>int((i / n) * 100)\<close>. \<open>unquote\<close> is
  \<open>urllib.parse.unquote\<close>; \<open>shortlink\<close> is the group that the shortlink pattern of the
  Multporn downloader finds in a page (\<open>None\<close>: no match), \<open>link_id\<close> the fourth group of
  the first match of its link pattern, and \<open>xml_links\<close> the non-empty \<open>linkURL\<close> attributes
  of the \<open>image\<close> elements of an XML document, or the parser's exception. None of these
  library functions is computed here.
\<close>

datatype response =
  Response (status_of: nat) (json_of: "exn + json") (text_of: "exn + string")
    (chunks_of: "string list") (chunk_error_of: "exn option")

datatype http_result = Raises exn | Responds response

record world =
  http :: "nat \<Rightarrow> string \<Rightarrow> http_result"
  fault :: "nat \<Rightarrow> exn option"
  repr :: "json \<Rightarrow> string"
  dumps :: "json \<Rightarrow> string"
  percent :: "nat \<Rightarrow> nat \<Rightarrow> nat"
  unquote :: "string \<Rightarrow> string"
  shortlink :: "string \<Rightarrow> string option"
  link_id :: "string \<Rightarrow> string option"
  xml_links :: "string \<Rightarrow> exn + string list"

text \<open>
  The state a run changes: the file system, the count of interactions with the outside,
  the messages handed to \<open>progress_callback\<close> (oldest first), the proxy rotation, and the
  trace of what the run did to the outside, oldest first: every request for a page of results,
  every call of \<open>download_file\<close> with its result, and every write of a line to a Seen-ID
  store with whether it succeeded.
\<close>

datatype event =
    PageFetch string
  | Download json path bool
  | StoreAppend path string bool

record state =
  fs :: filesystem
  tick :: nat
  progress :: "string list"
  current_proxy_index :: nat
  trace :: "event list"

text \<open>
  The attributes of a downloader object that a run only reads. \<open>has_callback\<close> says that
  \<open>progress_callback\<close> is not \<open>None\<close>; the callback itself only receives the message and is
  taken not to raise. What the program prints is not recorded.
\<close>

record downloader =
  has_callback :: bool
  proxy_list :: "string list"
  use_proxies :: bool
  dt_now :: string

definition emit :: "event \<Rightarrow> state \<Rightarrow> state" where
  "emit ev st = st\<lparr>trace := trace st @ [ev]\<rparr>"

definition notify :: "downloader \<Rightarrow> string \<Rightarrow> state \<Rightarrow> state" where
  \<comment> \<open>\<open>if self.progress_callback: self.progress_callback(msg)\<close>.\<close>
  "notify d msg st = (if has_callback d then st\<lparr>progress := progress st @ [msg]\<rparr> else st)"

definition next_fault :: "world \<Rightarrow> state \<Rightarrow> exn option \<times> state" where
  "next_fault w st = (fault w (tick st), st\<lparr>tick := tick st + 1\<rparr>)"

definition mkdir_parents :: "world \<Rightarrow> path \<Rightarrow> state \<Rightarrow> (exn + unit) \<times> state" where
  \<comment> \<open>\<open>p.mkdir(parents=True, exist_ok=True)\<close>.\<close>
  "mkdir_parents w p st =
     (case next_fault w st of
        (Some e, st1) \<Rightarrow> (Inl e, st1)
      | (None, st1) \<Rightarrow>
          if list_ex (is_file (fs st1)) (ancestors_and_self p)
          then (Inl (OSError ''File exists''), st1)
          else (Inr (),
                st1\<lparr>fs := (fs st1)\<lparr>dirs := dirs (fs st1) \<union> set (ancestors_and_self p)\<rparr>\<rparr>))"

definition mkdir :: "world \<Rightarrow> path \<Rightarrow> state \<Rightarrow> (exn + unit) \<times> state" where
  \<comment> \<open>\<open>p.mkdir(exist_ok=True)\<close>.\<close>
  "mkdir w p st =
     (case next_fault w st of
        (Some e, st1) \<Rightarrow> (Inl e, st1)
      | (None, st1) \<Rightarrow>
          if is_file (fs st1) p then (Inl (OSError ''File exists''), st1)
          else if \<not> is_dir (fs st1) (parent p)
          then (Inl (OSError ''No such file or directory''), st1)
          else (Inr (), st1\<lparr>fs := (fs st1)\<lparr>dirs := insert p (dirs (fs st1))\<rparr>\<rparr>))"

definition open_write :: "world \<Rightarrow> path \<Rightarrow> state \<Rightarrow> (exn + unit) \<times> state" where
  \<comment> \<open>\<open>open(p, 'w')\<close> or \<open>'wb'\<close>: the file is created, or emptied.\<close>
  "open_write w p st =
     (case next_fault w st of
        (Some e, st1) \<Rightarrow> (Inl e, st1)
      | (None, st1) \<Rightarrow>
          if is_dir (fs st1) p then (Inl (OSError ''Is a directory''), st1)
          else if \<not> is_dir (fs st1) (parent p)
          then (Inl (OSError ''No such file or directory''), st1)
          else (Inr (), st1\<lparr>fs := (fs st1)\<lparr>files := (files (fs st1))(p \<mapsto> [])\<rparr>\<rparr>))"

definition write_data :: "world \<Rightarrow> path \<Rightarrow> string \<Rightarrow> state \<Rightarrow> (exn + unit) \<times> state" where
  \<comment> \<open>\<open>f.write(data)\<close> on the open file \<open>p\<close>.\<close>
  "write_data w p data st =
     (case next_fault w st of
        (Some e, st1) \<Rightarrow> (Inl e, st1)
      | (None, st1) \<Rightarrow>
          (Inr (),
           st1\<lparr>fs := (fs st1)\<lparr>files := (files (fs st1))
              (p \<mapsto> (case files (fs st1) p of None \<Rightarrow> [] | Some old \<Rightarrow> old) @ data)\<rparr>\<rparr>))"

definition append_text :: "world \<Rightarrow> path \<Rightarrow> string \<Rightarrow> state \<Rightarrow> (exn + unit) \<times> state" where
  \<comment> \<open>\<open>with open(p, "a") as f: f.write(data)\<close>.\<close>
  "append_text w p data st =
     (case next_fault w st of
        (Some e, st1) \<Rightarrow> (Inl e, st1)
      | (None, st1) \<Rightarrow>
          if is_dir (fs st1) p then (Inl (OSError ''Is a directory''), st1)
          else if \<not> is_dir (fs st1) (parent p)
          then (Inl (OSError ''No such file or directory''), st1)
          else write_data w p data st1)"

definition read_text :: "world \<Rightarrow> path \<Rightarrow> state \<Rightarrow> (exn + string) \<times> state" where
  \<comment> \<open>\<open>open(p, "r")\<close> and reading the whole file.\<close>
  "read_text w p st =
     (case next_fault w st of
        (Some e, st1) \<Rightarrow> (Inl e, st1)
      | (None, st1) \<Rightarrow>
          if is_dir (fs st1) p then (Inl (OSError ''Is a directory''), st1)
          else (case files (fs st1) p of
                  None \<Rightarrow> (Inl (OSError ''No such file or directory''), st1)
                | Some content \<Rightarrow> (Inr content, st1)))"

section \<open>\<open>BaseAsyncDownloader\<close> (downloaders/base_async.py)\<close>

definition get_proxy :: "downloader \<Rightarrow> state \<Rightarrow> (exn + string option) \<times> state" where
  \<comment> \<open>\<open>_get_proxy\<close>.\<close>
  "get_proxy d st =
     (if \<not> use_proxies d \<or> proxy_list d = [] then (Inr None, st)
      else if current_proxy_index st < length (proxy_list d)
      then (Inr (Some (proxy_list d ! current_proxy_index st)),
            st\<lparr>current_proxy_index := (current_proxy_index st + 1) mod length (proxy_list d)\<rparr>)
      else (Inl (IndexError ''list index out of range''), st))"

definition session_get :: "world \<Rightarrow> json \<Rightarrow> state \<Rightarrow> http_result \<times> state" where
  \<comment> \<open>\<open>self.session.get(url, ...)\<close>: the client refuses a URL that is not a string.\<close>
  "session_get w url st =
     (case url of
        JStr u \<Rightarrow> (http w (tick st) u, st\<lparr>tick := tick st + 1\<rparr>)
      | _ \<Rightarrow> (Raises (TypeError ''Constructor parameter should be str''), st))"

fun write_chunks :: "world \<Rightarrow> path \<Rightarrow> string list \<Rightarrow> state \<Rightarrow> (exn + unit) \<times> state" where
  "write_chunks w p [] st = (Inr (), st)"
| "write_chunks w p (c # cs) st =
     (case write_data w p c st of
        (Inl e, st1) \<Rightarrow> (Inl e, st1)
      | (Inr u, st1) \<Rightarrow> write_chunks w p cs st1)"

definition download_file_try ::
  "world \<Rightarrow> downloader \<Rightarrow> json \<Rightarrow> path \<Rightarrow> string \<Rightarrow> state \<Rightarrow> (exn + bool) \<times> state" where
  \<comment> \<open>The \<open>try\<close> block of \<open>download_file\<close>.\<close>
  "download_file_try w d url file_path progress_info st =
     (let st1 = notify d (''Downloading: '' @ progress_info) st
      in case get_proxy d st1 of
           (Inl e, st2) \<Rightarrow> (Inl e, st2)
         | (Inr proxy, st2) \<Rightarrow>
             (case session_get w url st2 of
                (Raises e, st3) \<Rightarrow> (Inl e, st3)
              | (Responds r, st3) \<Rightarrow>
                  if status_of r = 200 then
                    (case mkdir_parents w (parent file_path) st3 of
                       (Inl e, st4) \<Rightarrow> (Inl e, st4)
                     | (Inr u, st4) \<Rightarrow>
                         (case open_write w file_path st4 of
                            (Inl e, st5) \<Rightarrow> (Inl e, st5)
                          | (Inr u, st5) \<Rightarrow>
                              (case write_chunks w file_path (chunks_of r) st5 of
                                 (Inl e, st6) \<Rightarrow> (Inl e, st6)
                               | (Inr u, st6) \<Rightarrow>
                                   (case chunk_error_of r of
                                      Some e \<Rightarrow> (Inl e, st6)
                                    | None \<Rightarrow> (Inr True, st6)))))
                  else (Inr False, st3)))"

definition download_file ::
  "world \<Rightarrow> downloader \<Rightarrow> json \<Rightarrow> path \<Rightarrow> string \<Rightarrow> state \<Rightarrow> bool \<times> state" where
  \<comment> \<open>\<open>download_file\<close>: any exception of the \<open>try\<close> block is caught and gives \<open>False\<close>.\<close>
  "download_file w d url file_path progress_info st =
     (case download_file_try w d url file_path progress_info st of
        (Inl e, st1) \<Rightarrow> (False, emit (Download url file_path False) st1)
      | (Inr b, st1) \<Rightarrow> (b, emit (Download url file_path b) st1))"

section \<open>Tag-search jobs\<close>

text \<open>
  The arguments of a tag-search job, as \<open>download_e621_tags\<close>, \<open>download_furbooru_tags\<close>
  and \<open>download_rule34_tags\<close> receive them. The credentials only change what is sent with
  a request, and the world's answers are arbitrary already. \<open>db_file\<close> is only ever tested
  for truth.
\<close>

record job =
  tags :: string
  site :: string
  blacklist :: "string list option"
  max_pages :: "int option"
  api_key :: "string option"
  ai_training :: bool
  db_file :: bool
  output_dir :: path

text \<open>The dict that the page loops append to \<open>page_approved\<close>.\<close>

record image_data =
  image_address :: json
  image_format :: json
  image_id :: string
  meta_tags :: json

datatype step = Break | Continue

definition page_limit_reached :: "int option \<Rightarrow> nat \<Rightarrow> bool" where
  \<comment> \<open>\<open>max_pages and page >= max_pages\<close>.\<close>
  "page_limit_reached mp page = (case mp of None \<Rightarrow> False | Some k \<Rightarrow> k \<noteq> 0 \<and> int page \<ge> k)"

definition str_max_pages :: "int option \<Rightarrow> string" where
  \<comment> \<open>\<open>f"{max_pages}"\<close>.\<close>
  "str_max_pages mp = (case mp of None \<Rightarrow> ''None'' | Some k \<Rightarrow> str_int k)"

definition is_newline :: "char \<Rightarrow> bool" where
  "is_newline c = (c = CHR 0x0A \<or> c = CHR 0x0D)"

definition read_ids :: "string \<Rightarrow> string list" where
  \<comment> \<open>\<open>{line.strip() for line in f if line.strip()}\<close>: text mode ends a line at a line
      feed or a carriage return, and the empty lines between the two are dropped.\<close>
  "read_ids content = filter (\<lambda>l. l \<noteq> []) (map py_strip (split_on is_newline content))"

definition load_downloaded_ids ::
  "world \<Rightarrow> bool \<Rightarrow> path \<Rightarrow> state \<Rightarrow> (exn + string list) \<times> state" where
  \<comment> \<open>Loading the Seen-ID store at the start of a job.\<close>
  "load_downloaded_ids w dbf db_path st =
     (if dbf \<and> path_exists (fs st) db_path then
        (case read_text w db_path st of
           (Inl e, st1) \<Rightarrow> (Inl e, st1)
         | (Inr content, st1) \<Rightarrow> (Inr (read_ids content), st1))
      else (Inr [], st))"

definition update_database :: "world \<Rightarrow> string \<Rightarrow> string \<Rightarrow> state \<Rightarrow> (exn + unit) \<times> state" where
  \<comment> \<open>The block under \<open>if db_file:\<close> after a successful download: creating \<open>db\<close> may
      raise, an error of the write itself is caught.\<close>
  "update_database w db_name iid st =
     (case mkdir w (path_of ''db'') st of
        (Inl e, st1) \<Rightarrow> (Inl e, st1)
      | (Inr u, st1) \<Rightarrow>
          (let db_file_path = path_join (path_of ''db'') db_name
           in case append_text w db_file_path (iid @ [CHR 0x0A]) st1 of
                (Inl e, st2) \<Rightarrow> (Inr (), emit (StoreAppend db_file_path (iid @ [CHR 0x0A]) False) st2)
              | (Inr u, st2) \<Rightarrow> (Inr (), emit (StoreAppend db_file_path (iid @ [CHR 0x0A]) True) st2)))"

definition save_metadata :: "world \<Rightarrow> path \<Rightarrow> json \<Rightarrow> state \<Rightarrow> state" where
  \<comment> \<open>\<open>json.dump(meta_tags, handler, indent=6)\<close> into a fresh file; errors are caught.\<close>
  "save_metadata w meta_file meta st =
     (case open_write w meta_file st of
        (Inl e, st1) \<Rightarrow> st1
      | (Inr u, st1) \<Rightarrow> snd (write_data w meta_file (dumps w meta) st1))"

definition target_path :: "world \<Rightarrow> path \<Rightarrow> image_data \<Rightarrow> path" where
  \<comment> \<open>\<open>main_dir / f"{image_id}.{image_format}"\<close>.\<close>
  "target_path w main_dir a =
     path_join main_dir (image_id a @ ''.'' @ py_str (repr w) (image_format a))"

definition skipped :: "image_data \<Rightarrow> bool" where
  \<comment> \<open>\<open>not image_address or not image_id\<close>.\<close>
  "skipped a = (\<not> truthy (image_address a) \<or> image_id a = [])"

fun download_items ::
  "world \<Rightarrow> downloader \<Rightarrow> string \<Rightarrow> bool \<Rightarrow> bool \<Rightarrow> string \<Rightarrow> path \<Rightarrow> nat \<Rightarrow>
   nat \<Rightarrow> nat \<Rightarrow> image_data list \<Rightarrow> state \<Rightarrow> (exn + nat) \<times> state" where
  \<comment> \<open>The \<open>for i, data in enumerate(approved_list)\<close> loop of both \<open>_download_page_images\<close>;
      \<open>label\<close> is the text before \<open>Image\<close> in \<open>progress_info\<close>, \<open>meta\<close> is \<open>ai_training\<close>
      (always off for Furbooru), \<open>db_name\<close> the store's file name. The result is
      \<open>downloaded_count\<close>.\<close>
  "download_items w d label meta dbf db_name main_dir total_images i downloaded_count [] st =
     (Inr downloaded_count, st)"
| "download_items w d label meta dbf db_name main_dir total_images i downloaded_count (a # rest) st =
     (if skipped a
      then download_items w d label meta dbf db_name main_dir total_images (i + 1) downloaded_count rest st
      else
        (let file_path = target_path w main_dir a;
             progress_info = label @ ''Image '' @ image_id a @ '' ('' @ str_nat (i + 1) @ ''/''
                             @ str_nat total_images @ '')'';
             done_msg = ''Downloaded '' @ str_nat (i + 1) @ ''/'' @ str_nat total_images @ '' images (''
                        @ str_nat (percent w (i + 1) total_images) @ ''%)''
         in case download_file w d (image_address a) file_path progress_info st of
              (False, st1) \<Rightarrow>
                download_items w d label meta dbf db_name main_dir total_images (i + 1) downloaded_count
                  rest (notify d done_msg st1)
            | (True, st1) \<Rightarrow>
                (let st2 = (if meta \<and> truthy (meta_tags a)
                            then save_metadata w
                                   (path_join (path_join main_dir ''meta'') (image_id a @ ''.json''))
                                   (meta_tags a) st1
                            else st1)
                 in case (if dbf then update_database w db_name (image_id a) st2
                          else (Inr (), st2)) of
                      (Inl e, st3) \<Rightarrow> (Inl e, st3)
                    | (Inr u, st3) \<Rightarrow>
                        download_items w d label meta dbf db_name main_dir total_images (i + 1)
                          (downloaded_count + 1) rest (notify d done_msg st3))))"

text \<open>
  A \<open>while True:\<close> loop over loop variables \<open>v\<close>. One round either raises, ends the loop
  (\<open>break\<close>) or hands the next round its variables. The loop is run for at most \<open>fuel\<close>
  rounds; \<open>None\<close> says that the rounds were used up before the loop had ended.
\<close>

fun while_true ::
  "('v \<Rightarrow> state \<Rightarrow> (exn + step \<times> 'v) \<times> state) \<Rightarrow> nat \<Rightarrow> 'v \<Rightarrow> state \<Rightarrow>
   (exn + 'v) option \<times> state" where
  "while_true body 0 v st = (None, st)"
| "while_true body (Suc fuel) v st =
     (case body v st of
        (Inl e, st1) \<Rightarrow> (Some (Inl e), st1)
      | (Inr (Break, v1), st1) \<Rightarrow> (Some (Inr v1), st1)
      | (Inr (Continue, v1), st1) \<Rightarrow> while_true body fuel v1 st1)"

section \<open>\<open>E621Downloader\<close> (Experimental_Gui/downloaders/e621_async.py)\<close>

fun collect_tags :: "json \<Rightarrow> string list \<Rightarrow> exn + json list" where
  \<comment> \<open>\<open>post_tags.extend(item_tags.get(tag_type, []))\<close> for each tag type in turn.\<close>
  "collect_tags item_tags [] = Inr []"
| "collect_tags item_tags (t # ts) =
     (case py_get item_tags t (JList []) of
        Inl e \<Rightarrow> Inl e
      | Inr v \<Rightarrow>
          (case py_iter v of
             Inl e \<Rightarrow> Inl e
           | Inr xs \<Rightarrow>
               (case collect_tags item_tags ts of
                  Inl e \<Rightarrow> Inl e
                | Inr ys \<Rightarrow> Inr (xs @ ys))))"

definition e621_tag_types :: "string \<Rightarrow> string list" where
  "e621_tag_types s =
     [''general'', ''species'', ''character'']
     @ (if s = ''e6ai'' then [''director'', ''meta''] else [''copyright'', ''artist''])"

definition e621_post_tags :: "string \<Rightarrow> json \<Rightarrow> exn + json list" where
  \<comment> \<open>The tags of a post that are checked against the blacklist.\<close>
  "e621_post_tags s item =
     (case py_get item ''tags'' (JDict []) of
        Inl e \<Rightarrow> Inl e
      | Inr item_tags \<Rightarrow> collect_tags item_tags (e621_tag_types s))"

definition e621_check_post ::
  "world \<Rightarrow> string \<Rightarrow> string list \<Rightarrow> bool \<Rightarrow> bool \<Rightarrow> string list \<Rightarrow> json \<Rightarrow>
   exn + image_data option" where
  \<comment> \<open>One round of \<open>for item in posts\<close>: \<open>None\<close> is a \<open>continue\<close>.\<close>
  "e621_check_post w s bl ait dbf downloaded_ids item =
     (case py_getitem item ''id'' of
        Inl e \<Rightarrow> Inl e
      | Inr idv \<Rightarrow>
     (case py_get item ''file'' (JDict []) of
        Inl e \<Rightarrow> Inl e
      | Inr file_info \<Rightarrow>
     (case py_get file_info ''url'' JNull of
        Inl e \<Rightarrow> Inl e
      | Inr addr \<Rightarrow>
          if \<not> truthy addr then Inr None
          else
     (case (if ait then py_getitem item ''tags'' else Inr (JDict [])) of
        Inl e \<Rightarrow> Inl e
      | Inr meta \<Rightarrow>
     (case e621_post_tags s item of
        Inl e \<Rightarrow> Inl e
      | Inr post_tags \<Rightarrow>
          (let passed = length (filter (\<lambda>blacklisted_tag. JStr blacklisted_tag \<in> set post_tags) bl)
           in if passed > 0 then Inr None
              else if dbf \<and> py_str (repr w) idv \<in> set downloaded_ids then Inr None
              else
     (case py_get file_info ''ext'' (JStr ''jpg'') of
        Inl e \<Rightarrow> Inl e
      | Inr fmt \<Rightarrow>
          Inr (Some \<lparr>image_address = addr, image_format = fmt,
                     image_id = py_str (repr w) idv, meta_tags = meta\<rparr>))))))))"

fun e621_approve ::
  "world \<Rightarrow> string \<Rightarrow> string list \<Rightarrow> bool \<Rightarrow> bool \<Rightarrow> string list \<Rightarrow> json list \<Rightarrow>
   exn + image_data list" where
  \<comment> \<open>\<open>page_approved\<close> after the whole \<open>for item in posts\<close> loop.\<close>
  "e621_approve w s bl ait dbf downloaded_ids [] = Inr []"
| "e621_approve w s bl ait dbf downloaded_ids (item # items) =
     (case e621_check_post w s bl ait dbf downloaded_ids item of
        Inl e \<Rightarrow> Inl e
      | Inr r \<Rightarrow>
          (case e621_approve w s bl ait dbf downloaded_ids items of
             Inl e \<Rightarrow> Inl e
           | Inr rs \<Rightarrow> Inr (case r of None \<Rightarrow> rs | Some a \<Rightarrow> a # rs)))"

definition e621_main_dir :: "downloader \<Rightarrow> job \<Rightarrow> path" where
  \<comment> \<open>\<open>main_dir\<close> of \<open>_download_page_images\<close>.\<close>
  "e621_main_dir d j =
     (let directory_name = dt_now d @ '' '' @ tags j
      in path_join (output_dir j) (sanitize_filename directory_name))"

definition e621_download_page_images ::
  "world \<Rightarrow> downloader \<Rightarrow> job \<Rightarrow> image_data list \<Rightarrow> state \<Rightarrow> (exn + unit) \<times> state" where
  \<comment> \<open>\<open>E621Downloader._download_page_images\<close>.\<close>
  "e621_download_page_images w d j approved_list st =
     (let main_dir = e621_main_dir d j
      in case mkdir_parents w main_dir st of
           (Inl e, st1) \<Rightarrow> (Inl e, st1)
         | (Inr u, st1) \<Rightarrow>
             (case (if ai_training j then mkdir_parents w (path_join main_dir ''meta'') st1
                    else (Inr (), st1)) of
                (Inl e, st2) \<Rightarrow> (Inl e, st2)
              | (Inr u, st2) \<Rightarrow>
                  (let total_images = length approved_list;
                       st3 = notify d (''Downloading '' @ str_nat total_images @ '' images...'') st2
                   in case download_items w d (tags j @ '' - '') (ai_training j) (db_file j)
                             (site j @ ''.db'') main_dir total_images 0 0 approved_list st3 of
                        (Inl e, st4) \<Rightarrow> (Inl e, st4)
                      | (Inr downloaded_count, st4) \<Rightarrow>
                          (Inr (),
                           notify d (''Downloaded '' @ str_nat downloaded_count @ '' images to ''
                                     @ path_str main_dir) st4))))"

definition api_limit_message :: "json \<Rightarrow> exn + bool" where
  \<comment> \<open>\<open>isinstance(data, dict) and "message" in data\<close> and the message names the limit.\<close>
  "api_limit_message data =
     (case data of
        JDict kvs \<Rightarrow>
          (case map_of kvs ''message'' of
             None \<Rightarrow> Inr False
           | Some m \<Rightarrow> str_in ''You cannot go beyond page 750'' m)
      | _ \<Rightarrow> Inr False)"

definition e621_page ::
  "world \<Rightarrow> downloader \<Rightarrow> job \<Rightarrow> string list \<Rightarrow> nat \<Rightarrow> json \<Rightarrow> state \<Rightarrow>
   (exn + step) \<times> state" where
  \<comment> \<open>One round of the \<open>while True\<close> loop from the decoded answer \<open>data\<close> on.\<close>
  "e621_page w d j downloaded_ids page data st =
     (case api_limit_message data of
        Inl e \<Rightarrow> (Inl e, st)
      | Inr True \<Rightarrow> (Inr Break, st)
      | Inr False \<Rightarrow>
     (case py_get data ''posts'' (JList []) of
        Inl e \<Rightarrow> (Inl e, st)
      | Inr posts \<Rightarrow>
          if \<not> truthy posts
          then (Inr Break, notify d ''No images found or all downloaded! Try different tags.'' st)
          else if page_limit_reached (max_pages j) page
          then (Inr Break,
                notify d (''Finished downloading '' @ str_max_pages (max_pages j) @ '' of ''
                          @ str_max_pages (max_pages j) @ '' pages.'') st)
          else
     (case py_iter posts of
        Inl e \<Rightarrow> (Inl e, st)
      | Inr items \<Rightarrow>
     (case e621_approve w (site j) (case blacklist j of None \<Rightarrow> [] | Some b \<Rightarrow> b)
             (ai_training j) (db_file j) downloaded_ids items of
        Inl e \<Rightarrow> (Inl e, st)
      | Inr page_approved \<Rightarrow>
     (case (if page_approved \<noteq> [] then e621_download_page_images w d j page_approved st
            else (Inr (), st)) of
        (Inl e, st1) \<Rightarrow> (Inl e, st1)
      | (Inr u, st1) \<Rightarrow>
          (Inr Continue, notify d (''Page '' @ str_nat page @ '' completed'') st1))))))"

definition fetch_posts :: "world \<Rightarrow> string \<Rightarrow> state \<Rightarrow> json option \<times> state" where
  \<comment> \<open>The inner \<open>try\<close> of the page loops: the request and \<open>response.json()\<close>. \<open>None\<close> is
      the \<open>break\<close> on a status other than 200 or on any exception.\<close>
  "fetch_posts w api_url st =
     (case session_get w (JStr api_url) (emit (PageFetch api_url) st) of
        (Raises e, st1) \<Rightarrow> (None, st1)
      | (Responds r, st1) \<Rightarrow>
          if status_of r \<noteq> 200 then (None, st1)
          else (case json_of r of Inl e \<Rightarrow> (None, st1) | Inr data \<Rightarrow> (Some data, st1)))"

definition e621_round ::
  "world \<Rightarrow> downloader \<Rightarrow> job \<Rightarrow> string list \<Rightarrow> nat \<Rightarrow> state \<Rightarrow>
   (exn + step \<times> nat) \<times> state" where
  \<comment> \<open>One round of the \<open>while True\<close> loop for the page number \<open>page\<close>; the number
      returned is the page number after the round.\<close>
  "e621_round w d j downloaded_ids page st =
     (let st1 = notify d (''Fetching page '' @ str_nat page @ ''...'') st;
          api_url = ''https://'' @ site j @ ''.net/posts.json?tags='' @ tags j
                    @ ''&limit=320&page='' @ str_nat page
      in case fetch_posts w api_url st1 of
           (None, st2) \<Rightarrow> (Inr (Break, page), st2)
         | (Some data, st2) \<Rightarrow>
             (case e621_page w d j downloaded_ids page data st2 of
                (Inl e, st3) \<Rightarrow> (Inl e, st3)
              | (Inr Break, st3) \<Rightarrow> (Inr (Break, page), st3)
              | (Inr Continue, st3) \<Rightarrow> (Inr (Continue, page + 1), st3)))"

definition e621_loop ::
  "world \<Rightarrow> downloader \<Rightarrow> job \<Rightarrow> string list \<Rightarrow> nat \<Rightarrow> nat \<Rightarrow> state \<Rightarrow>
   (exn + nat) option \<times> state" where
  "e621_loop w d j downloaded_ids fuel page st =
     while_true (e621_round w d j downloaded_ids) fuel page st"

definition e621_try ::
  "world \<Rightarrow> downloader \<Rightarrow> job \<Rightarrow> nat \<Rightarrow> state \<Rightarrow> (exn + bool) option \<times> state" where
  \<comment> \<open>The \<open>try\<close> block of \<open>E621Downloader.download_by_tags\<close>.\<close>
  "e621_try w d j fuel st =
     (let st1 = notify d (''Starting '' @ site j @ '' download for tags: '' @ tags j) st
      in case load_downloaded_ids w (db_file j)
                (path_join (path_of ''db'') (site j @ ''.db'')) st1 of
           (Inl e, st2) \<Rightarrow> (Some (Inl e), st2)
         | (Inr downloaded_ids, st2) \<Rightarrow>
             (case e621_loop w d j downloaded_ids fuel 1 st2 of
                (None, st3) \<Rightarrow> (None, st3)
              | (Some (Inl e), st3) \<Rightarrow> (Some (Inl e), st3)
              | (Some (Inr u), st3) \<Rightarrow>
                  (Some (Inr True),
                   notify d (''Download complete for tags: '' @ tags j) st3)))"

definition catch_all ::
  "downloader \<Rightarrow> (exn + bool) option \<times> state \<Rightarrow> bool option \<times> state" where
  \<comment> \<open>\<open>except Exception as e\<close> around a whole run: the error goes to the progress callback
      and the run returns \<open>False\<close>.\<close>
  "catch_all d r =
     (case r of
        (None, st) \<Rightarrow> (None, st)
      | (Some (Inl e), st) \<Rightarrow> (Some False, notify d (''Error: '' @ str_exn e) st)
      | (Some (Inr b), st) \<Rightarrow> (Some b, st))"

definition e621_download_by_tags ::
  "world \<Rightarrow> downloader \<Rightarrow> job \<Rightarrow> nat \<Rightarrow> state \<Rightarrow> bool option \<times> state" where
  \<comment> \<open>\<open>E621Downloader.download_by_tags\<close>.\<close>
  "e621_download_by_tags w d j fuel st = catch_all d (e621_try w d j fuel st)"

section \<open>\<open>FurbooruDownloader\<close> (Experimental_Gui/downloaders/furbooru_async.py)\<close>

definition furbooru_check_image ::
  "world \<Rightarrow> string list \<Rightarrow> bool \<Rightarrow> string list \<Rightarrow> json \<Rightarrow> exn + image_data option" where
  \<comment> \<open>One round of \<open>for item in images\<close>: \<open>None\<close> is a \<open>continue\<close>. Furbooru keeps no
      \<open>meta_tags\<close>; the field is left empty.\<close>
  "furbooru_check_image w bl dbf downloaded_ids item =
     (case py_get item ''hidden_from_users'' (JBool False) of
        Inl e \<Rightarrow> Inl e
      | Inr hidden \<Rightarrow>
          if truthy hidden then Inr None
          else
     (case py_get item ''tags'' (JList []) of
        Inl e \<Rightarrow> Inl e
      | Inr tv \<Rightarrow>
     (case py_iter tv of
        Inl e \<Rightarrow> Inl e
      | Inr post_tags \<Rightarrow>
          if list_ex (\<lambda>tag. tag \<in> set (map JStr bl)) post_tags then Inr None
          else
     (case py_getitem item ''id'' of
        Inl e \<Rightarrow> Inl e
      | Inr idv \<Rightarrow>
     (case py_get item ''representations'' (JDict []) of
        Inl e \<Rightarrow> Inl e
      | Inr reps \<Rightarrow>
     (case py_get reps ''full'' JNull of
        Inl e \<Rightarrow> Inl e
      | Inr addr \<Rightarrow>
     (case py_get item ''format'' (JStr ''png'') of
        Inl e \<Rightarrow> Inl e
      | Inr fmt \<Rightarrow>
          if \<not> truthy addr then Inr None
          else if dbf \<and> py_str (repr w) idv \<in> set downloaded_ids then Inr None
          else Inr (Some \<lparr>image_address = addr, image_format = fmt,
                          image_id = py_str (repr w) idv, meta_tags = JDict []\<rparr>))))))))"

fun furbooru_approve ::
  "world \<Rightarrow> string list \<Rightarrow> bool \<Rightarrow> string list \<Rightarrow> json list \<Rightarrow> exn + image_data list" where
  "furbooru_approve w bl dbf downloaded_ids [] = Inr []"
| "furbooru_approve w bl dbf downloaded_ids (item # items) =
     (case furbooru_check_image w bl dbf downloaded_ids item of
        Inl e \<Rightarrow> Inl e
      | Inr r \<Rightarrow>
          (case furbooru_approve w bl dbf downloaded_ids items of
             Inl e \<Rightarrow> Inl e
           | Inr rs \<Rightarrow> Inr (case r of None \<Rightarrow> rs | Some a \<Rightarrow> a # rs)))"

definition furbooru_main_dir :: "downloader \<Rightarrow> job \<Rightarrow> path" where
  \<comment> \<open>\<open>main_dir\<close> of \<open>_download_page_images\<close>.\<close>
  "furbooru_main_dir d j =
     (let safe_tags = py_replace CHR '' '' ''_'' (sanitize_filename (tags j));
          directory_name = dt_now d @ ''_'' @ safe_tags
      in path_join (output_dir j) directory_name)"

definition furbooru_download_page_images ::
  "world \<Rightarrow> downloader \<Rightarrow> job \<Rightarrow> image_data list \<Rightarrow> state \<Rightarrow> (exn + unit) \<times> state" where
  \<comment> \<open>\<open>FurbooruDownloader._download_page_images\<close>.\<close>
  "furbooru_download_page_images w d j approved_list st =
     (let main_dir = furbooru_main_dir d j
      in case mkdir_parents w main_dir st of
           (Inl e, st1) \<Rightarrow> (Inl e, st1)
         | (Inr u, st1) \<Rightarrow>
             (let total_images = length approved_list;
                  st2 = notify d (''Downloading '' @ str_nat total_images @ '' images...'') st1
              in case download_items w d ''Furbooru - '' False (db_file j) ''furbooru.db''
                        main_dir total_images 0 0 approved_list st2 of
                   (Inl e, st3) \<Rightarrow> (Inl e, st3)
                 | (Inr downloaded_count, st3) \<Rightarrow>
                     (Inr (),
                      notify d (''Downloaded '' @ str_nat downloaded_count @ '' images to ''
                                @ path_str main_dir) st3)))"

definition equals_zero :: "json \<Rightarrow> bool" where
  \<comment> \<open>\<open>x == 0\<close>: \<open>False\<close> equals \<open>0\<close> in Python.\<close>
  "equals_zero x = (x = JInt 0 \<or> x = JBool False)"

definition furbooru_page ::
  "world \<Rightarrow> downloader \<Rightarrow> job \<Rightarrow> string list \<Rightarrow> nat \<Rightarrow> json \<Rightarrow> state \<Rightarrow>
   (exn + step) \<times> state" where
  "furbooru_page w d j downloaded_ids page data st =
     (case py_get data ''total'' (JInt 0) of
        Inl e \<Rightarrow> (Inl e, st)
      | Inr total_found \<Rightarrow>
          if equals_zero total_found
          then (Inr Break, notify d ''No images found or all downloaded! Try different tags.'' st)
          else if page_limit_reached (max_pages j) page
          then (Inr Break,
                notify d (''Finished downloading '' @ str_max_pages (max_pages j) @ '' of ''
                          @ str_max_pages (max_pages j) @ '' pages.'') st)
          else
     (case py_get data ''images'' (JList []) of
        Inl e \<Rightarrow> (Inl e, st)
      | Inr images \<Rightarrow>
     (case py_iter images of
        Inl e \<Rightarrow> (Inl e, st)
      | Inr items \<Rightarrow>
     (case furbooru_approve w (case blacklist j of None \<Rightarrow> [] | Some b \<Rightarrow> b) (db_file j)
             downloaded_ids items of
        Inl e \<Rightarrow> (Inl e, st)
      | Inr page_approved \<Rightarrow>
     (case (if page_approved \<noteq> [] then furbooru_download_page_images w d j page_approved st
            else (Inr (), st)) of
        (Inl e, st1) \<Rightarrow> (Inl e, st1)
      | (Inr u, st1) \<Rightarrow>
          (Inr Continue, notify d (''Page '' @ str_nat page @ '' completed'') st1))))))"

definition furbooru_round ::
  "world \<Rightarrow> downloader \<Rightarrow> job \<Rightarrow> string list \<Rightarrow> nat \<Rightarrow> state \<Rightarrow>
   (exn + step \<times> nat) \<times> state" where
  "furbooru_round w d j downloaded_ids page st =
     (let st1 = notify d (''Fetching page '' @ str_nat page @ ''...'') st;
          formatted_tags = py_replace CHR '' '' '', '' (tags j);
          api_url = ''https://furbooru.org/api/v1/json/search/images?q='' @ formatted_tags
                    @ ''&page='' @ str_nat page @ ''&per_page=50''
                    @ (case api_key j of
                         None \<Rightarrow> []
                       | Some k \<Rightarrow> if k = [] then [] else ''&key='' @ k)
      in case fetch_posts w api_url st1 of
           (None, st2) \<Rightarrow> (Inr (Break, page), st2)
         | (Some data, st2) \<Rightarrow>
             (case furbooru_page w d j downloaded_ids page data st2 of
                (Inl e, st3) \<Rightarrow> (Inl e, st3)
              | (Inr Break, st3) \<Rightarrow> (Inr (Break, page), st3)
              | (Inr Continue, st3) \<Rightarrow> (Inr (Continue, page + 1), st3)))"

definition furbooru_try ::
  "world \<Rightarrow> downloader \<Rightarrow> job \<Rightarrow> nat \<Rightarrow> state \<Rightarrow> (exn + bool) option \<times> state" where
  "furbooru_try w d j fuel st =
     (let st1 = notify d (''Starting Furbooru download for tags: '' @ tags j) st
      in case load_downloaded_ids w (db_file j)
                (path_join (path_of ''db'') ''furbooru.db'') st1 of
           (Inl e, st2) \<Rightarrow> (Some (Inl e), st2)
         | (Inr downloaded_ids, st2) \<Rightarrow>
             (case while_true (furbooru_round w d j downloaded_ids) fuel 1 st2 of
                (None, st3) \<Rightarrow> (None, st3)
              | (Some (Inl e), st3) \<Rightarrow> (Some (Inl e), st3)
              | (Some (Inr u), st3) \<Rightarrow>
                  (Some (Inr True),
                   notify d (''Download complete for tags: '' @ tags j) st3)))"

definition furbooru_download_by_tags ::
  "world \<Rightarrow> downloader \<Rightarrow> job \<Rightarrow> nat \<Rightarrow> state \<Rightarrow> bool option \<times> state" where
  \<comment> \<open>\<open>FurbooruDownloader.download_by_tags\<close>.\<close>
  "furbooru_download_by_tags w d j fuel st = catch_all d (furbooru_try w d j fuel st)"

section \<open>\<open>Rule34Downloader\<close> (downloaders/rule34_async.py)\<close>

definition fetch_json :: "world \<Rightarrow> downloader \<Rightarrow> string \<Rightarrow> state \<Rightarrow> json option \<times> state" where
  \<comment> \<open>\<open>BaseAsyncDownloader.fetch_json\<close>: \<open>None\<close> on a status other than 200 and on any
      exception.\<close>
  "fetch_json w d url st =
     (case get_proxy d st of
        (Inl e, st1) \<Rightarrow> (None, st1)
      | (Inr proxy, st1) \<Rightarrow>
          (case session_get w (JStr url) st1 of
             (Raises e, st2) \<Rightarrow> (None, st2)
           | (Responds r, st2) \<Rightarrow>
               if status_of r = 200
               then (case json_of r of Inl e \<Rightarrow> (None, st2) | Inr data \<Rightarrow> (Some data, st2))
               else (None, st2)))"

definition file_ext_of :: "json \<Rightarrow> exn + string" where
  \<comment> \<open>\<open>x.split(".")[-1] if "." in x else "jpg"\<close>.\<close>
  "file_ext_of x =
     (case str_in ''.'' x of
        Inl e \<Rightarrow> Inl e
      | Inr False \<Rightarrow> Inr ''jpg''
      | Inr True \<Rightarrow>
          (case x of
             JStr s \<Rightarrow> Inr (snd (py_rsplit1 CHR ''.'' s))
           | _ \<Rightarrow> Inl (AttributeError (sq @ type_name x @ sq @ '' object has no attribute ''
                                       @ sq @ ''split'' @ sq))))"

definition rule34_target :: "world \<Rightarrow> path \<Rightarrow> json \<Rightarrow> exn + (json \<times> path) option" where
  \<comment> \<open>The first half of a round of \<open>for i, item in enumerate(data)\<close>: the URL and the file
      path of the item, \<open>None\<close> for the \<open>continue\<close> of an item without the two keys.\<close>
  "rule34_target w download_dir item =
     (case str_in ''file_url'' item of
        Inl e \<Rightarrow> Inl e
      | Inr False \<Rightarrow> Inr None
      | Inr True \<Rightarrow>
     (case str_in ''id'' item of
        Inl e \<Rightarrow> Inl e
      | Inr False \<Rightarrow> Inr None
      | Inr True \<Rightarrow>
     (case py_getitem item ''file_url'' of
        Inl e \<Rightarrow> Inl e
      | Inr image_url \<Rightarrow>
     (case py_getitem item ''id'' of
        Inl e \<Rightarrow> Inl e
      | Inr idv \<Rightarrow>
     (case str_in ''image'' item of
        Inl e \<Rightarrow> Inl e
      | Inr has_image \<Rightarrow>
     (case (if has_image
            then (case py_getitem item ''image'' of
                    Inl e \<Rightarrow> Inl e
                  | Inr image_name \<Rightarrow> file_ext_of image_name)
            else file_ext_of image_url) of
        Inl e \<Rightarrow> Inl e
      | Inr file_ext \<Rightarrow>
          Inr (Some (image_url,
                     path_join download_dir (py_str (repr w) idv @ ''.'' @ file_ext)))))))))"

fun rule34_items ::
  "world \<Rightarrow> downloader \<Rightarrow> path \<Rightarrow> nat \<Rightarrow> nat \<Rightarrow> nat \<Rightarrow> nat \<Rightarrow> json list \<Rightarrow> state \<Rightarrow>
   (exn + nat) \<times> state" where
  \<comment> \<open>The \<open>for i, item in enumerate(data)\<close> loop; the result is \<open>downloaded_count\<close>.\<close>
  "rule34_items w d download_dir page n i downloaded_count [] st = (Inr downloaded_count, st)"
| "rule34_items w d download_dir page n i downloaded_count (item # rest) st =
     (case rule34_target w download_dir item of
        Inl e \<Rightarrow> (Inl e, st)
      | Inr None \<Rightarrow> rule34_items w d download_dir page n (i + 1) downloaded_count rest st
      | Inr (Some (image_url, file_path)) \<Rightarrow>
          if path_exists (fs st) file_path
          then rule34_items w d download_dir page n (i + 1) downloaded_count rest st
          else
            (let progress_info = ''Rule34 - Page '' @ str_nat page @ '' - Image ''
                                 @ str_nat (i + 1) @ ''/'' @ str_nat n
             in case download_file w d image_url file_path progress_info st of
                  (ok, st1) \<Rightarrow>
                    (let c = (if ok then downloaded_count + 1 else downloaded_count)
                     in rule34_items w d download_dir page n (i + 1) c rest
                          (notify d (''Downloaded '' @ str_nat c @ '' images so far...'') st1))))"

definition page_limit_passed :: "int option \<Rightarrow> nat \<Rightarrow> bool" where
  \<comment> \<open>\<open>max_pages and page > max_pages\<close>.\<close>
  "page_limit_passed mp page = (case mp of None \<Rightarrow> False | Some k \<Rightarrow> k \<noteq> 0 \<and> int page > k)"

definition rule34_round ::
  "world \<Rightarrow> downloader \<Rightarrow> string \<Rightarrow> int option \<Rightarrow> path \<Rightarrow> nat \<times> nat \<Rightarrow> state \<Rightarrow>
   (exn + step \<times> nat \<times> nat) \<times> state" where
  \<comment> \<open>One round of the \<open>while True\<close> loop; the loop variables are \<open>page\<close> and
      \<open>downloaded_count\<close>.\<close>
  "rule34_round w d tgs mp download_dir v st =
     (let page = fst v; downloaded_count = snd v
      in if page_limit_passed mp page then (Inr (Break, v), st)
         else
           (let st1 = notify d (''Fetching page '' @ str_nat page @ ''...'') st;
                api_url = ''https://api.rule34.xxx/index.php?page=dapi&s=post&q=index&pid=''
                          @ str_nat page @ ''&limit=1000&json=1&tags='' @ tgs
            in case fetch_json w d api_url (emit (PageFetch api_url) st1) of
                 (None, st2) \<Rightarrow> (Inr (Break, v), st2)
               | (Some data, st2) \<Rightarrow>
                   if \<not> truthy data then (Inr (Break, v), st2)
                   else
                     (case data of
                        JList items \<Rightarrow>
                          (let st3 = notify d (''Found '' @ str_nat (length items)
                                               @ '' images on page '' @ str_nat page) st2
                           in case rule34_items w d download_dir page (length items) 0
                                     downloaded_count items st3 of
                                (Inl e, st4) \<Rightarrow> (Inl e, st4)
                              | (Inr c, st4) \<Rightarrow>
                                  if length items < 1000 then (Inr (Break, (page + 1, c)), st4)
                                  else (Inr (Continue, (page + 1, c)), st4))
                      | _ \<Rightarrow> (Inr (Break, v), notify d ''No more images found'' st2))))"

definition rule34_try ::
  "world \<Rightarrow> downloader \<Rightarrow> string \<Rightarrow> int option \<Rightarrow> path \<Rightarrow> nat \<Rightarrow> state \<Rightarrow>
   (exn + bool) option \<times> state" where
  "rule34_try w d tgs mp out_dir fuel st =
     (let st1 = notify d ''Starting Rule34 download...'' st;
          safe_tags = (if sanitize_filename tgs = [] then ''all'' else sanitize_filename tgs);
          download_dir = path_join (path_join out_dir ''rule34'') safe_tags
      in case mkdir_parents w download_dir st1 of
           (Inl e, st2) \<Rightarrow> (Some (Inl e), st2)
         | (Inr u, st2) \<Rightarrow>
             (case while_true (rule34_round w d tgs mp download_dir) fuel (1, 0) st2 of
                (None, st3) \<Rightarrow> (None, st3)
              | (Some (Inl e), st3) \<Rightarrow> (Some (Inl e), st3)
              | (Some (Inr v), st3) \<Rightarrow>
                  (Some (Inr (snd v > 0)),
                   notify d (''Download complete! '' @ str_nat (snd v) @ '' images saved to ''
                             @ path_str download_dir) st3)))"

definition rule34_download_by_tags ::
  "world \<Rightarrow> downloader \<Rightarrow> string \<Rightarrow> int option \<Rightarrow> path \<Rightarrow> nat \<Rightarrow> state \<Rightarrow>
   bool option \<times> state" where
  \<comment> \<open>\<open>Rule34Downloader.download_by_tags(tags, max_pages, output_dir)\<close>.\<close>
  "rule34_download_by_tags w d tgs mp out_dir fuel st =
     catch_all d (rule34_try w d tgs mp out_dir fuel st)"

definition download_rule34_tags ::
  "world \<Rightarrow> downloader \<Rightarrow> job \<Rightarrow> nat \<Rightarrow> state \<Rightarrow> bool option \<times> state" where
  \<comment> \<open>\<open>download_rule34_tags\<close>: of the job's arguments only \<open>tags\<close>, \<open>max_pages\<close> and
      \<open>output_dir\<close> are passed on.\<close>
  "download_rule34_tags w d j fuel st =
     rule34_download_by_tags w d (tags j) (max_pages j) (output_dir j) fuel st"

section \<open>\<open>LusciousDownloader\<close> (downloaders/luscious_async.py)\<close>













section \<open>\<open>YifferDownloader\<close> (downloaders/yiffer_async.py)\<close>





definition no_fuel :: "(exn + bool) \<times> state \<Rightarrow> (exn + bool) option \<times> state" where
  \<comment> \<open>A run without an unbounded loop always returns.\<close>
  "no_fuel r = (Some (fst r), snd r)"


section \<open>\<open>MultpornDownloader\<close> (downloaders/multporn_async.py)\<close>







section \<open>The download queue (Experimental_Gui/gui/tkinter_app.py)\<close>

text \<open>
  The dataclass \<open>DownloadTask\<close>. Its fields carry the prefix \<open>task_\<close> here, since \<open>site\<close>,
  \<open>tags\<close> and \<open>max_pages\<close> name the arguments of a job above.
\<close>

record DownloadTask =
  task_id :: string
  task_site :: string
  task_type :: string
  task_url :: "string option"
  task_tags :: "string option"
  task_max_pages :: "int option"
  task_status :: string

definition pages_text :: "int option \<Rightarrow> string" where
  \<comment> \<open>\<open>f"{self.max_pages or 'unlimited'}"\<close>.\<close>
  "pages_text mp = (case mp of None \<Rightarrow> ''unlimited'' | Some k \<Rightarrow> if k = 0 then ''unlimited'' else str_int k)"

definition get_unique_key :: "DownloadTask \<Rightarrow> exn + string" where
  \<comment> \<open>\<open>DownloadTask.get_unique_key\<close>; a task of type \<open>url\<close> without a URL raises.\<close>
  "get_unique_key t =
     (if task_type t = ''url'' then
        (case task_url t of
           None \<Rightarrow> Inl (AttributeError (sq @ ''NoneType'' @ sq @ '' object has no attribute ''
                                        @ sq @ ''lower'' @ sq))
         | Some u \<Rightarrow>
             (let normalized_url = py_rstrip_char CHR ''/'' (py_lower u)
              in Inr (task_site t @ ''|url|'' @ normalized_url)))
      else
        (let tags_normalized =
               (case task_tags t of
                  None \<Rightarrow> []
                | Some s \<Rightarrow> if s = [] then [] else py_strip (py_lower s))
         in Inr (task_site t @ ''|tags|'' @ tags_normalized @ ''|''
                 @ pages_text (task_max_pages t))))"

definition task_eq :: "DownloadTask \<Rightarrow> DownloadTask \<Rightarrow> exn + bool" where
  \<comment> \<open>\<open>DownloadTask.__eq__\<close> on two tasks.\<close>
  "task_eq a b =
     (case get_unique_key a of
        Inl e \<Rightarrow> Inl e
      | Inr ka \<Rightarrow> (case get_unique_key b of Inl e \<Rightarrow> Inl e | Inr kb \<Rightarrow> Inr (ka = kb)))"

definition url_task :: "string \<Rightarrow> string \<Rightarrow> string \<Rightarrow> DownloadTask" where
  \<comment> \<open>The task \<open>_create_download_task\<close> builds for a URL site.\<close>
  "url_task tid s u =
     \<lparr>task_id = tid, task_site = s, task_type = ''url'', task_url = Some u, task_tags = None,
      task_max_pages = None, task_status = ''pending''\<rparr>"

definition tags_task :: "string \<Rightarrow> string \<Rightarrow> string \<Rightarrow> int option \<Rightarrow> DownloadTask" where
  \<comment> \<open>The task \<open>_create_download_task\<close> builds for a tag site.\<close>
  "tags_task tid s tgs mp =
     \<lparr>task_id = tid, task_site = s, task_type = ''tags'', task_url = None, task_tags = Some tgs,
      task_max_pages = mp, task_status = ''pending''\<rparr>"

text \<open>
  What the queue functions read and change of the application object. \<open>download_queue\<close> is
  the FIFO queue, next task first. \<open>config_ready\<close> says that \<open>config_manager\<close> is set,
  \<open>loop_running\<close> that the asyncio loop runs. \<open>started\<close> lists the tasks handed to the loop,
  \<open>notices\<close> what the user was told: the log lines and message boxes themselves are not
  modelled.
\<close>

datatype notice = DuplicateWarning DownloadTask | AddedToQueue DownloadTask

record app =
  download_queue :: "DownloadTask list"
  is_downloading :: bool
  current_download_info :: "DownloadTask option"
  config_ready :: bool
  loop_running :: bool
  started :: "DownloadTask list"
  notices :: "notice list"

fun scan_queue :: "DownloadTask \<Rightarrow> DownloadTask list \<Rightarrow> bool \<Rightarrow> (exn + bool) \<times> DownloadTask list" where
  \<comment> \<open>The \<open>while not self.download_queue.empty()\<close> loop of \<open>_is_duplicate_task\<close>: the
      result and the tasks still in the queue. When a comparison raises, the tasks taken out
      so far are not put back.\<close>
  "scan_queue new_task [] is_duplicate = (Inr is_duplicate, [])"
| "scan_queue new_task (item # rest) is_duplicate =
     (case task_eq new_task item of
        Inl e \<Rightarrow> (Inl e, rest)
      | Inr b \<Rightarrow> scan_queue new_task rest (is_duplicate \<or> b))"

definition is_duplicate_task :: "DownloadTask \<Rightarrow> app \<Rightarrow> (exn + bool) \<times> app" where
  \<comment> \<open>\<open>_is_duplicate_task\<close>.\<close>
  "is_duplicate_task new_task a =
     (case (case current_download_info a of
              None \<Rightarrow> Inr False
            | Some cur \<Rightarrow> task_eq new_task cur) of
        Inl e \<Rightarrow> (Inl e, a)
      | Inr True \<Rightarrow> (Inr True, a)
      | Inr False \<Rightarrow>
          (case scan_queue new_task (download_queue a) False of
             (Inl e, left) \<Rightarrow> (Inl e, a\<lparr>download_queue := left\<rparr>)
           | (Inr is_duplicate, left) \<Rightarrow> (Inr is_duplicate, a)))"

fun start_tasks :: "app \<Rightarrow> DownloadTask list \<Rightarrow> app" where
  \<comment> \<open>\<open>_process_next_in_queue\<close> on an idle application with the queue \<open>q\<close>: it takes the
      first task and calls \<open>_start_download_task\<close>, which gives up when the components are
      not ready, hands the task to the running loop, or else fails it at once through
      \<open>_download_completed\<close>, which turns to the next task.\<close>
  "start_tasks a [] = a\<lparr>download_queue := []\<rparr>"
| "start_tasks a (t # rest) =
     (if \<not> config_ready a then a\<lparr>download_queue := rest\<rparr>
      else if loop_running a
      then a\<lparr>download_queue := rest, is_downloading := True,
             current_download_info := Some (t\<lparr>task_status := ''downloading''\<rparr>),
             started := started a @ [t]\<rparr>
      else start_tasks (a\<lparr>is_downloading := False, current_download_info := None\<rparr>) rest)"

definition process_next_in_queue :: "app \<Rightarrow> app" where
  \<comment> \<open>\<open>_process_next_in_queue\<close>.\<close>
  "process_next_in_queue a =
     (if is_downloading a \<or> download_queue a = [] then a else start_tasks a (download_queue a))"

definition add_to_queue :: "DownloadTask option \<Rightarrow> app \<Rightarrow> (exn + unit) \<times> app" where
  \<comment> \<open>\<open>add_to_queue\<close>, given what \<open>_create_download_task\<close> returned.\<close>
  "add_to_queue task a =
     (case task of
        None \<Rightarrow> (Inr (), a)
      | Some t \<Rightarrow>
          (case is_duplicate_task t a of
             (Inl e, a1) \<Rightarrow> (Inl e, a1)
           | (Inr True, a1) \<Rightarrow> (Inr (), a1\<lparr>notices := notices a1 @ [DuplicateWarning t]\<rparr>)
           | (Inr False, a1) \<Rightarrow>
               (let a2 = a1\<lparr>download_queue := download_queue a1 @ [t],
                            notices := notices a1 @ [AddedToQueue t]\<rparr>
                in (Inr (), if \<not> is_downloading a2 then process_next_in_queue a2 else a2))))"

text \<open>
  The identity of a task as the code compares it: the site, the mode, the query (the tag
  text lower-cased and trimmed; a URL lower-cased with its trailing slashes stripped) and,
  for a tag search, the page limit, where 0 and no limit are the same.
\<close>

definition page_limit_of :: "DownloadTask \<Rightarrow> int option" where
  "page_limit_of t = (case task_max_pages t of None \<Rightarrow> None | Some k \<Rightarrow> if k = 0 then None else Some k)"

definition same_identity :: "DownloadTask \<Rightarrow> DownloadTask \<Rightarrow> bool" where
  "same_identity a b =
     (task_site a = task_site b \<and>
      (if task_type a = ''url''
       then task_type b = ''url'' \<and>
            map_option (\<lambda>u. py_rstrip_char CHR ''/'' (py_lower u)) (task_url a)
              = map_option (\<lambda>u. py_rstrip_char CHR ''/'' (py_lower u)) (task_url b)
       else task_type b \<noteq> ''url'' \<and>
            py_strip (py_lower (case task_tags a of None \<Rightarrow> [] | Some s \<Rightarrow> s))
              = py_strip (py_lower (case task_tags b of None \<Rightarrow> [] | Some s \<Rightarrow> s)) \<and>
            page_limit_of a = page_limit_of b))"

definition claimed_identity :: "DownloadTask \<Rightarrow> string \<times> bool \<times> string \<times> int option" where
  \<comment> \<open>The identity in the words of the specification: site, mode, the query lower-cased and
      trimmed, with a trailing slash stripped from a URL, and \<open>max_pages\<close>.\<close>
  "claimed_identity t =
     (task_site t, task_type t = ''url'',
      (if task_type t = ''url''
       then (let u = py_strip (py_lower (case task_url t of None \<Rightarrow> [] | Some u \<Rightarrow> u))
             in if u \<noteq> [] \<and> last u = CHR ''/'' then butlast u else u)
       else py_strip (py_lower (case task_tags t of None \<Rightarrow> [] | Some s \<Rightarrow> s))),
      task_max_pages t)"

definition has_key :: "DownloadTask \<Rightarrow> bool" where
  \<comment> \<open>\<open>get_unique_key\<close> returns: the task is not a URL task without a URL.\<close>
  "has_key t = (task_type t \<noteq> ''url'' \<or> task_url t \<noteq> None)"

definition idle_app :: "DownloadTask list \<Rightarrow> DownloadTask option \<Rightarrow> app" where
  "idle_app q cur =
     \<lparr>download_queue = q, is_downloading = (cur \<noteq> None), current_download_info = cur,
      config_ready = True, loop_running = True, started = [], notices = []\<rparr>"

section \<open>What a caller sees of a run\<close>



section \<open>Reading the trace\<close>

fun is_page_fetch :: "event \<Rightarrow> bool" where
  "is_page_fetch (PageFetch u) = True"
| "is_page_fetch ev = False"

definition page_fetches :: "state \<Rightarrow> nat" where
  \<comment> \<open>How many pages of results the run has requested so far.\<close>
  "page_fetches st = length (filter is_page_fetch (trace st))"

fun is_download :: "event \<Rightarrow> bool" where
  "is_download (Download u p b) = True"
| "is_download ev = False"

definition store_path :: "string \<Rightarrow> path" where
  "store_path db_name = path_join (path_of ''db'') db_name"


section \<open>Concrete runs\<close>

text \<open>
  Small worlds, jobs and states on which the functions above are evaluated below.
\<close>

definition empty_fs :: filesystem where
  "empty_fs = \<lparr>dirs = {}, files = (\<lambda>p. None)\<rparr>"

definition start_state :: "filesystem \<Rightarrow> state" where
  "start_state f = \<lparr>fs = f, tick = 0, progress = [], current_proxy_index = 0, trace = []\<rparr>"

definition plain_downloader :: downloader where
  "plain_downloader =
     \<lparr>has_callback = True, proxy_list = [], use_proxies = False, dt_now = ''04-11-2026_10-00-00''\<rparr>"

definition serving :: "(nat \<Rightarrow> string \<Rightarrow> http_result) \<Rightarrow> world" where
  \<comment> \<open>A world without file-system faults whose server answers as \<open>h\<close> says.\<close>
  "serving h =
     \<lparr>http = h, fault = (\<lambda>n. None), repr = (\<lambda>x. ''?''), dumps = (\<lambda>x. ''{}''),
      percent = (\<lambda>i n. (i * 100) div n), unquote = (\<lambda>s. s), shortlink = (\<lambda>s. None),
      link_id = (\<lambda>s. None), xml_links = (\<lambda>s. Inr [])\<rparr>"

definition ok_response :: "json \<Rightarrow> response" where
  \<comment> \<open>Status 200 with the JSON document \<open>body\<close>; read as a file, it is the bytes \<open>bytes\<close>.\<close>
  "ok_response body = Response 200 (Inr body) (Inr []) [''bytes''] None"

definition not_found :: response where
  "not_found = Response 404 (Inl (ValueError ''no JSON'')) (Inr ''Not Found'') [] None"

definition tag_job :: "string \<Rightarrow> string list \<Rightarrow> int option \<Rightarrow> bool \<Rightarrow> job" where
  "tag_job s bl mp dbf =
     \<lparr>tags = ''cat'', site = s, blacklist = Some bl, max_pages = mp, api_key = None,
      ai_training = False, db_file = dbf, output_dir = path_of ''media''\<rparr>"

definition rule34_post :: json where
  "rule34_post =
     JDict [(''id'', JInt 5), (''file_url'', JStr ''https://img.example/5.jpg''),
            (''image'', JStr ''5.jpg''), (''tags'', JStr ''cat gore'')]"

definition rule34_world :: world where
  "rule34_world = serving (\<lambda>n u. Responds (ok_response (JList [rule34_post])))"


definition e621_post :: "int \<Rightarrow> string list \<Rightarrow> json" where
  \<comment> \<open>A post as the e621 API lists it, with the id \<open>n\<close> and the general tags \<open>ts\<close>.\<close>
  "e621_post n ts =
     JDict [(''id'', JInt n),
            (''file'', JDict [(''url'', JStr (''https://img.example/'' @ str_int n @ ''.png'')),
                              (''ext'', JStr ''png'')]),
            (''tags'', JDict [(''general'', JList (map JStr ts))])]"

definition e621_site :: "json list \<Rightarrow> string list \<Rightarrow> world" where
  \<comment> \<open>A server whose first page of results for the tag \<open>cat\<close> lists \<open>posts\<close> and whose
      other pages are empty; the files at the URLs in \<open>broken\<close> are missing (status 404).\<close>
  "e621_site posts broken =
     serving (\<lambda>n u.
       if u = ''https://e621.net/posts.json?tags=cat&limit=320&page=1''
       then Responds (ok_response (JDict [(''posts'', JList posts)]))
       else if is_substring ''posts.json'' u
       then Responds (ok_response (JDict [(''posts'', JList [])]))
       else if u \<in> set broken then Responds not_found
       else Responds (ok_response JNull))"


section \<open>Verified properties\<close>

subsection \<open>Sanitizers\<close>

lemma set_py_replace: "set (py_replace old new s) \<subseteq> (set s - {old}) \<union> set new"
  by (induction s) (auto simp: py_replace_def)

lemma py_replace_not_old: "old \<notin> set new \<Longrightarrow> old \<notin> set (py_replace old new s)"
  using set_py_replace[of old new s] by auto

lemma length_py_replace1: "length new = 1 \<Longrightarrow> length (py_replace old new s) = length s"
  by (induction s) (auto simp: py_replace_def)

lemma set_fold_replace: "set (fold (\<lambda>ch s. py_replace ch new s) cs s) \<subseteq> (set s - set cs) \<union> set new"
proof (induction cs arbitrary: s)
  case Nil then show ?case by auto
next
  case (Cons c cs)
  have "set (fold (\<lambda>ch s. py_replace ch new s) cs (py_replace c new s)) \<subseteq> (set (py_replace c new s) - set cs) \<union> set new"
    by (rule Cons.IH)
  moreover have "set (py_replace c new s) \<subseteq> (set s - {c}) \<union> set new" by (rule set_py_replace)
  ultimately show ?case by auto
qed

lemma length_fold_replace: "length new = 1 \<Longrightarrow> length (fold (\<lambda>ch s. py_replace ch new s) cs s) = length s"
  by (induction cs arbitrary: s) (auto simp: length_py_replace1)

lemma set_py_strip: "set (py_strip_chars cs s) \<subseteq> set s"
proof -
  have "set (py_strip_chars cs s) \<subseteq> set (dropWhile (\<lambda>c. c \<in> set cs) s)"
    unfolding py_strip_chars_def using set_dropWhileD by fastforce
  also have "\<dots> \<subseteq> set s" using set_dropWhileD by fastforce
  finally show ?thesis .
qed

lemma length_py_strip: "length (py_strip_chars cs s) \<le> length s"
  unfolding py_strip_chars_def
  by (metis length_dropWhile_le length_rev order_trans)

lemma underscore_safe: "set ''_'' \<inter> set unsafe_chars = {}" "CHR '' '' \<notin> set ''_''"
  by (simp_all add: unsafe_chars_def)

lemma unnamed_safe: "set ''unnamed'' \<inter> set unsafe_chars = {}" "CHR '' '' \<notin> set ''unnamed''"
  "set ''unnamed'' \<inter> set dm_unsafe_chars = {}"
  by (simp_all add: unsafe_chars_def dm_unsafe_chars_def)

lemma sanitize_filename_unsafe: "set (sanitize_filename s) \<inter> set unsafe_chars = {}"
proof -
  let ?a = "fold (\<lambda>ch s. py_replace ch ''_'' s) unsafe_chars s"
  let ?b = "py_replace CHR '' '' ''_'' ?a"
  let ?c = "py_strip_chars ''. '' ?b"
  have a: "set ?a \<inter> set unsafe_chars = {}"
    using set_fold_replace[of "''_''" unsafe_chars s] underscore_safe(1) by auto
  have "set ?b \<subseteq> set ?a \<union> set ''_''" using set_py_replace[of "CHR '' ''" "''_''" ?a] by auto
  with a underscore_safe(1) have b: "set ?b \<inter> set unsafe_chars = {}" by auto
  with set_py_strip[of "''. ''" ?b] have c: "set ?c \<inter> set unsafe_chars = {}" by auto
  show ?thesis using c unnamed_safe(1) by (simp add: sanitize_filename_def Let_def)
qed

lemma sanitize_filename_space: "CHR '' '' \<notin> set (sanitize_filename s)"
proof -
  let ?a = "fold (\<lambda>ch s. py_replace ch ''_'' s) unsafe_chars s"
  let ?b = "py_replace CHR '' '' ''_'' ?a"
  let ?c = "py_strip_chars ''. '' ?b"
  have "CHR '' '' \<notin> set ?b" by (rule py_replace_not_old) simp
  with set_py_strip[of "''. ''" ?b] have c: "CHR '' '' \<notin> set ?c" by auto
  show ?thesis using c by (simp add: sanitize_filename_def Let_def)
qed

lemma sanitize_filename_nonempty: "sanitize_filename s \<noteq> []"
  by (simp add: sanitize_filename_def Let_def)

lemma sanitize_filename_length: "length (sanitize_filename s) \<le> max (length s) 7"
proof -
  let ?a = "fold (\<lambda>ch s. py_replace ch ''_'' s) unsafe_chars s"
  let ?b = "py_replace CHR '' '' ''_'' ?a"
  let ?c = "py_strip_chars ''. '' ?b"
  have "length ?b = length s" by (simp add: length_py_replace1 length_fold_replace)
  with length_py_strip[of "''. ''" ?b] have "length ?c \<le> length s" by simp
  then show ?thesis by (auto simp add: sanitize_filename_def Let_def)
qed

lemma sanitize_folder_name_unsafe: "set (sanitize_folder_name s) \<inter> set dm_unsafe_chars = {}"
  by (auto simp: sanitize_folder_name_def)

lemma create_folder_name_unsafe: "set (create_folder_name s) \<inter> set dm_unsafe_chars = {}"
proof -
  let ?a = "sanitize_folder_name s"
  let ?b = "truncate_folder_name ?a"
  have "set ?b \<subseteq> set ?a" by (auto simp: truncate_folder_name_def dest: in_set_takeD)
  with sanitize_folder_name_unsafe[of s] have b: "set ?b \<inter> set dm_unsafe_chars = {}" by auto
  have "set (py_replace CHR '' '' ''_'' ?b) \<subseteq> set ?b \<union> set ''_''"
    using set_py_replace[of "CHR '' ''" "''_''" ?b] by auto
  moreover have "set ''_'' \<inter> set dm_unsafe_chars = {}" by (simp add: dm_unsafe_chars_def)
  ultimately show ?thesis using b
    by (auto simp: create_folder_name_def replace_spaces_with_underscores_def)
qed

lemma create_folder_name_space: "CHR '' '' \<notin> set (create_folder_name s)"
  unfolding create_folder_name_def replace_spaces_with_underscores_def
  by (rule py_replace_not_old) simp

lemma create_folder_name_length: "length (create_folder_name s) \<le> 90"
  by (simp add: create_folder_name_def replace_spaces_with_underscores_def length_py_replace1
      truncate_folder_name_def max_folder_name_length_def)


lemma dm_sanitize_filename_nonempty: "dm_sanitize_filename s \<noteq> []"
  by (simp add: dm_sanitize_filename_def Let_def)

lemma set_py_slice_to: "set (py_slice_to n xs) \<subseteq> set xs"
  by (auto simp: py_slice_to_def dest: in_set_takeD)

lemma set_py_rsplit1: "set (fst (py_rsplit1 c s)) \<subseteq> set s" "set (snd (py_rsplit1 c s)) \<subseteq> set s"
proof -
  show "set (fst (py_rsplit1 c s)) \<subseteq> set s"
    by (auto simp: py_rsplit1_def dest!: in_set_dropD set_dropWhileD)
  show "set (snd (py_rsplit1 c s)) \<subseteq> set s"
    by (auto simp: py_rsplit1_def dest!: set_takeWhileD)
qed

lemma dm_truncate_subset:
  assumes "(name_part, ext_part) = (if CHR ''.'' \<in> set t then py_rsplit1 CHR ''.'' t else (t, ''''))"
  shows "set (py_slice_to n name_part @ (if ext_part \<noteq> [] then ''.'' @ ext_part else '''')) \<subseteq> set t \<union> {CHR ''.''}"
proof -
  have "set name_part \<subseteq> set t" "set ext_part \<subseteq> set t"
    using assms set_py_rsplit1[of "CHR ''.''" t]
    by (auto split: if_splits simp: prod_eq_iff)
  then show ?thesis using set_py_slice_to[of n name_part] by auto
qed

lemma dm_sanitize_filename_subset:
  "set (dm_sanitize_filename s) \<subseteq> (set s - set dm_unsafe_chars - {CHR '' ''}) \<union> set ''_.unamed''"
proof -
  define t0 where "t0 = filter (\<lambda>c. c \<notin> set dm_unsafe_chars) s"
  define t where "t = py_replace CHR '' '' ''_'' t0"
  define u where "u = (if length t > 200 then
               (let (name_part, ext_part) =
                      (if CHR ''.'' \<in> set t then py_rsplit1 CHR ''.'' t
                       else (t, ''''));
                    max_name_len =
                      (if ext_part \<noteq> [] then 200 - int (length ext_part) - 1 else 200)
                in py_slice_to max_name_len name_part
                   @ (if ext_part \<noteq> [] then ''.'' @ ext_part else ''''))
             else t)"
  have r: "dm_sanitize_filename s = (if u = [] \<or> u = ''.'' then ''unnamed'' else u)"
    by (simp add: dm_sanitize_filename_def Let_def u_def t_def t0_def)
  have t0: "set t0 = set s - set dm_unsafe_chars" by (auto simp: t0_def)
  have t: "set t \<subseteq> (set t0 - {CHR '' ''}) \<union> set ''_''"
    unfolding t_def by (rule set_py_replace)
  have u: "set u \<subseteq> set t \<union> {CHR ''.''}"
  proof (cases "length t > 200")
    case False then show ?thesis by (auto simp: u_def)
  next
    case True
    obtain a b where ab: "(a, b) = (if CHR ''.'' \<in> set t then py_rsplit1 CHR ''.'' t else (t, ''''))"
      by (metis surj_pair)
    have "u = py_slice_to (if b \<noteq> [] then 200 - int (length b) - 1 else 200) a
                   @ (if b \<noteq> [] then ''.'' @ b else '''')"
      using True ab[symmetric] by (simp add: u_def Let_def)
    then show ?thesis using dm_truncate_subset[OF ab] by simp
  qed
  have su: "set u \<subseteq> (set s - set dm_unsafe_chars - {CHR '' ''}) \<union> ({CHR ''_''} \<union> {CHR ''.''})"
    using t0 t u by (simp only: set_simps) blast
  have k: "({CHR ''_''} \<union> {CHR ''.''}) \<subseteq> set ''_.unamed''" "set ''unnamed'' \<subseteq> set ''_.unamed''"
    by simp_all
  show ?thesis
  proof (cases "u = [] \<or> u = ''.''")
    case True
    then have "dm_sanitize_filename s = ''unnamed''" using r by simp
    then show ?thesis using k(2) by (simp only:) blast
  next
    case False
    then have "dm_sanitize_filename s = u" using r by simp
    then show ?thesis using su k(1) by (simp only:) blast
  qed
qed

lemma dm_sanitize_filename_unsafe: "set (dm_sanitize_filename s) \<inter> set dm_unsafe_chars = {}"
proof -
  have "set ''_.unamed'' \<inter> set dm_unsafe_chars = {}" by (simp add: dm_unsafe_chars_def)
  then show ?thesis using dm_sanitize_filename_subset[of s] by blast
qed

lemma dm_sanitize_filename_space: "CHR '' '' \<notin> set (dm_sanitize_filename s)"
proof -
  have "CHR '' '' \<notin> set ''_.unamed''" by simp
  then show ?thesis using dm_sanitize_filename_subset[of s] by blast
qed

text \<open>
  The truncation of \<open>AsyncDirectoryManager.sanitize_filename\<close> keeps the name within 200
  characters whenever the extension of the sanitized name is shorter than 200 characters,
  and that extension is never longer than the extension of the name as given.
\<close>

lemma dm_sanitize_filename_bounded:
  assumes "length (extension (dm_clean s)) < 200"
  shows "length (dm_sanitize_filename s) \<le> 200"
proof -
  define t where "t = dm_clean s"
  define u where "u = (if length t > 200 then
               (let (name_part, ext_part) =
                      (if CHR ''.'' \<in> set t then py_rsplit1 CHR ''.'' t
                       else (t, ''''));
                    max_name_len =
                      (if ext_part \<noteq> [] then 200 - int (length ext_part) - 1 else 200)
                in py_slice_to max_name_len name_part
                   @ (if ext_part \<noteq> [] then ''.'' @ ext_part else ''''))
             else t)"
  have r: "dm_sanitize_filename s = (if u = [] \<or> u = ''.'' then ''unnamed'' else u)"
    by (simp add: dm_sanitize_filename_def Let_def u_def t_def dm_clean_def)
  have e: "length (extension t) < 200" using assms by (simp add: t_def)
  have u: "length u \<le> 200"
  proof (cases "length t > 200")
    case False then show ?thesis by (simp add: u_def)
  next
    case True
    show ?thesis
    proof (cases "CHR ''.'' \<in> set t")
      case False
      then show ?thesis using True by (simp add: u_def py_slice_to_def)
    next
      case dot: True
      obtain a b where ab: "py_rsplit1 CHR ''.'' t = (a, b)" by (cases "py_rsplit1 CHR ''.'' t")
      have b: "length b < 200" using e dot ab by (simp add: extension_def)
      have "u = py_slice_to (if b \<noteq> [] then 200 - int (length b) - 1 else 200) a
                   @ (if b \<noteq> [] then ''.'' @ b else '''')"
        using True dot ab by (simp add: u_def Let_def)
      then show ?thesis using b by (auto simp: py_slice_to_def)
    qed
  qed
  show ?thesis using r u by (auto split: if_splits)
qed

lemma extension_append_dot:
  "CHR ''.'' \<notin> set b \<Longrightarrow> extension (a @ CHR ''.'' # b) = b"
proof -
  assume b: "CHR ''.'' \<notin> set b"
  have "takeWhile (\<lambda>c. c \<noteq> CHR ''.'') (rev b @ CHR ''.'' # rev a)
          = rev b @ takeWhile (\<lambda>c. c \<noteq> CHR ''.'') (CHR ''.'' # rev a)"
    using b by (intro takeWhile_append2) auto
  then show ?thesis by (simp add: extension_def py_rsplit1_def)
qed

lemma dm_clean_append: "dm_clean (a @ b) = dm_clean a @ dm_clean b"
  by (simp add: dm_clean_def py_replace_def)

lemma length_dm_clean: "length (dm_clean s) \<le> length s"
proof -
  have "length (dm_clean s) = length (filter (\<lambda>c. c \<notin> set dm_unsafe_chars) s)"
    by (simp add: dm_clean_def length_py_replace1)
  then show ?thesis by simp
qed

lemma dot_dm_clean: "CHR ''.'' \<in> set (dm_clean s) \<longleftrightarrow> CHR ''.'' \<in> set s"
  by (induction s) (auto simp: dm_clean_def py_replace_def dm_unsafe_chars_def)

lemma extension_dm_clean: "extension (dm_clean s) = dm_clean (extension s)"
proof (cases "CHR ''.'' \<in> set s")
  case False
  then show ?thesis using dot_dm_clean[of s] by (simp add: extension_def dm_clean_def py_replace_def)
next
  case True
  then obtain a b where s: "s = a @ CHR ''.'' # b" and b: "CHR ''.'' \<notin> set b"
    by (meson split_list_last)
  have c: "dm_clean s = dm_clean a @ CHR ''.'' # dm_clean b"
    unfolding s by (simp add: dm_clean_append) (simp add: dm_clean_def py_replace_def dm_unsafe_chars_def)
  have "CHR ''.'' \<notin> set (dm_clean b)" using b dot_dm_clean[of b] by simp
  then have "extension (dm_clean s) = dm_clean b" unfolding c by (rule extension_append_dot)
  moreover have "extension s = b" unfolding s using b by (rule extension_append_dot)
  ultimately show ?thesis by simp
qed

lemma extension_dm_clean_le: "length (extension (dm_clean s)) \<le> length (extension s)"
  by (simp add: extension_dm_clean length_dm_clean)

lemma truncated_name:
  "length (extension (dm_clean (replicate 197 CHR ''a'' @ ''.jpg''))) < 200 \<and>
   dm_sanitize_filename (replicate 197 CHR ''a'' @ ''.jpg'') = replicate 196 CHR ''a'' @ ''.jpg''"
  by code_simp

text \<open>
  With an extension of 200 characters or more \<open>max_name_len\<close> is negative, and the slice
  \<open>name_part[:max_name_len]\<close> then drops characters from the end of the name only: the
  extension is kept whole and the result is longer than 200 characters.
\<close>

lemma long_extension_not_truncated:
  "length (CHR ''a'' # CHR ''.'' # replicate 200 CHR ''b'') = 202 \<and>
   dm_sanitize_filename (CHR ''a'' # CHR ''.'' # replicate 200 CHR ''b'')
     = CHR ''.'' # replicate 200 CHR ''b''"
  by code_simp

text \<open>
  C9, as stated, fails: the sanitizer the downloaders use for their folder names
  (\<open>BaseAsyncDownloader.sanitize_filename\<close>) never truncates, so a 91-character name stays
  91 characters long, and the folder name built by \<open>AsyncDirectoryManager.create_folder\<close>
  is empty when every character of the input is unsafe.
\<close>

theorem C9_sanitizer_counterexample:
  "create_folder_name ''???'' = '''' \<and>
   length (sanitize_filename (replicate 91 CHR ''a'')) = 91"
proof -
  have "create_folder_name ''???'' = ''''"
    by (simp add: create_folder_name_def sanitize_folder_name_def truncate_folder_name_def
        replace_spaces_with_underscores_def py_replace_def dm_unsafe_chars_def)
  moreover have "length (sanitize_filename (replicate 91 CHR ''a'')) = 91"
    by code_simp
  ultimately show ?thesis by simp
qed

text \<open>
  C9 (amended): for every input string,
  \<^item> \<open>BaseAsyncDownloader.sanitize_filename\<close> returns a non-empty name with none of its unsafe
    characters and no space, never longer than the input or than \<open>unnamed\<close> (there is no fixed
    bound on its length);
  \<^item> the folder name of \<open>AsyncDirectoryManager.create_folder\<close> has none of the unsafe
    characters of its character class, no space and at most 90 characters (it may be empty);
  \<^item> \<open>AsyncDirectoryManager.sanitize_filename\<close> returns a non-empty name with none of those
    unsafe characters and no space, and of at most 200 characters whenever the extension of
    the sanitized name (the text after its last dot) is shorter than 200 characters, as it
    is for every name without a dot and every name whose own extension is that short.

  Nothing is said here of the length of a name whose extension has 200 characters or more.
\<close>

theorem C9_sanitizers_safe:
  "set (sanitize_filename s) \<inter> set unsafe_chars = {} \<and>
   CHR '' '' \<notin> set (sanitize_filename s) \<and>
   sanitize_filename s \<noteq> [] \<and>
   length (sanitize_filename s) \<le> max (length s) 7 \<and>
   set (create_folder_name s) \<inter> set dm_unsafe_chars = {} \<and>
   CHR '' '' \<notin> set (create_folder_name s) \<and>
   length (create_folder_name s) \<le> 90 \<and>
   set (dm_sanitize_filename s) \<inter> set dm_unsafe_chars = {} \<and>
   CHR '' '' \<notin> set (dm_sanitize_filename s) \<and>
   dm_sanitize_filename s \<noteq> [] \<and>
   (length (extension (dm_clean s)) < 200 \<longrightarrow> length (dm_sanitize_filename s) \<le> 200) \<and>
   length (extension (dm_clean s)) \<le> length (extension s)"
  using sanitize_filename_unsafe sanitize_filename_space sanitize_filename_nonempty
    sanitize_filename_length create_folder_name_unsafe create_folder_name_space
    create_folder_name_length dm_sanitize_filename_unsafe dm_sanitize_filename_space
    dm_sanitize_filename_nonempty dm_sanitize_filename_bounded extension_dm_clean_le
  by blast

text \<open>
  A name of 201 characters with the extension \<open>jpg\<close> is cut to 200 characters, its extension
  kept.
\<close>

theorem C9_sanitizers_safe_witness:
  "length (extension (dm_clean (replicate 197 CHR ''a'' @ ''.jpg''))) < 200 \<and>
   dm_sanitize_filename (replicate 197 CHR ''a'' @ ''.jpg'') = replicate 196 CHR ''a'' @ ''.jpg'' \<and>
   length (dm_sanitize_filename (replicate 197 CHR ''a'' @ ''.jpg'')) \<le> 200"
proof -
  have le: "length (extension (dm_clean (replicate 197 CHR ''a'' @ ''.jpg''))) < 200
        \<longrightarrow> length (dm_sanitize_filename (replicate 197 CHR ''a'' @ ''.jpg'')) \<le> 200"
    using C9_sanitizers_safe[of "replicate 197 CHR ''a'' @ ''.jpg''"] by blast
  from truncated_name le show ?thesis by blast
qed

subsection \<open>What each operation leaves in the trace\<close>

lemma notify_simps [simp]:
  "fs (notify d m st) = fs st" "tick (notify d m st) = tick st" "trace (notify d m st) = trace st"
  by (simp_all add: notify_def)

lemma emit_simps [simp]:
  "fs (emit ev st) = fs st" "tick (emit ev st) = tick st" "trace (emit ev st) = trace st @ [ev]"
  "progress (emit ev st) = progress st"
  by (simp_all add: emit_def)

lemma next_fault_trace: "next_fault w st = (r, st') \<Longrightarrow> trace st' = trace st"
  by (auto simp: next_fault_def)

lemma mkdir_parents_trace: "mkdir_parents w p st = (r, st') \<Longrightarrow> trace st' = trace st"
  by (auto simp: mkdir_parents_def next_fault_def split: option.splits if_splits)

lemma mkdir_trace: "mkdir w p st = (r, st') \<Longrightarrow> trace st' = trace st"
  by (auto simp: mkdir_def next_fault_def split: option.splits if_splits)

lemma open_write_trace: "open_write w p st = (r, st') \<Longrightarrow> trace st' = trace st"
  by (auto simp: open_write_def next_fault_def split: option.splits if_splits)

lemma write_data_trace: "write_data w p x st = (r, st') \<Longrightarrow> trace st' = trace st"
  by (auto simp: write_data_def next_fault_def split: option.splits if_splits)

lemma append_text_trace: "append_text w p x st = (r, st') \<Longrightarrow> trace st' = trace st"
  by (auto simp: append_text_def write_data_def next_fault_def split: option.splits if_splits)

lemma read_text_trace: "read_text w p st = (r, st') \<Longrightarrow> trace st' = trace st"
  by (auto simp: read_text_def next_fault_def split: option.splits if_splits)

lemma write_chunks_trace: "write_chunks w p cs st = (r, st') \<Longrightarrow> trace st' = trace st"
proof (induction cs arbitrary: st)
  case Nil then show ?case by simp
next
  case (Cons c cs)
  obtain r1 s1 where w1: "write_data w p c st = (r1, s1)" by (cases "write_data w p c st")
  have t1: "trace s1 = trace st" using write_data_trace[OF w1] .
  show ?case
  proof (cases r1)
    case (Inl e) then show ?thesis using Cons.prems w1 t1 by simp
  next
    case (Inr u)
    then have "write_chunks w p cs s1 = (r, st')" using Cons.prems w1 by simp
    then show ?thesis using Cons.IH t1 by simp
  qed
qed

lemma get_proxy_trace: "get_proxy d st = (r, st') \<Longrightarrow> trace st' = trace st"
  by (auto simp: get_proxy_def split: if_splits)

lemma session_get_trace: "session_get w url st = (r, st') \<Longrightarrow> trace st' = trace st"
  by (auto simp: session_get_def split: json.splits)

lemma download_file_try_trace:
  assumes "download_file_try w d url p info st = (r, st')"
  shows "trace st' = trace st"
proof -
  let ?s1 = "notify d (''Downloading: '' @ info) st"
  obtain r2 s2 where a2: "get_proxy d ?s1 = (r2, s2)" by (cases "get_proxy d ?s1")
  have t2: "trace s2 = trace st" using get_proxy_trace[OF a2] by simp
  obtain r3 s3 where a3: "session_get w url s2 = (r3, s3)" by (cases "session_get w url s2")
  have t3: "trace s3 = trace st" using session_get_trace[OF a3] t2 by simp
  obtain r4 s4 where a4: "mkdir_parents w (parent p) s3 = (r4, s4)" by (cases "mkdir_parents w (parent p) s3")
  have t4: "trace s4 = trace st" using mkdir_parents_trace[OF a4] t3 by simp
  obtain r5 s5 where a5: "open_write w p s4 = (r5, s5)" by (cases "open_write w p s4")
  have t5: "trace s5 = trace st" using open_write_trace[OF a5] t4 by simp
  show ?thesis
  proof (cases r2)
    case (Inl e) then show ?thesis using assms a2 t2 by (simp add: download_file_try_def)
  next
    case pr: (Inr proxy)
    show ?thesis
    proof (cases r3)
      case (Raises e) then show ?thesis using assms a2 a3 t3 pr by (simp add: download_file_try_def)
    next
      case (Responds resp)
      show ?thesis
      proof (cases "status_of resp = 200")
        case False then show ?thesis using assms a2 a3 t3 pr Responds by (simp add: download_file_try_def)
      next
        case True
        show ?thesis
        proof (cases r4)
          case (Inl e) then show ?thesis using assms a2 a3 a4 t4 pr Responds True by (simp add: download_file_try_def)
        next
          case r4: (Inr u4)
          show ?thesis
          proof (cases r5)
            case (Inl e) then show ?thesis using assms a2 a3 a4 a5 t5 pr Responds True r4 by (simp add: download_file_try_def)
          next
            case r5: (Inr u5)
            obtain r6 s6 where a6: "write_chunks w p (chunks_of resp) s5 = (r6, s6)"
              by (cases "write_chunks w p (chunks_of resp) s5")
            have t6: "trace s6 = trace st" using write_chunks_trace[OF a6] t5 by simp
            show ?thesis using assms a2 a3 a4 a5 a6 t6 pr Responds True r4 r5
              by (auto simp add: download_file_try_def split: sum.splits option.splits)
          qed
        qed
      qed
    qed
  qed
qed

lemma download_file_trace:
  assumes "download_file w d url p info st = (b, st')"
  shows "trace st' = trace st @ [Download url p b]"
proof -
  obtain r s1 where a: "download_file_try w d url p info st = (r, s1)"
    by (cases "download_file_try w d url p info st")
  have "trace s1 = trace st" using download_file_try_trace[OF a] .
  then show ?thesis using assms a by (cases r) (auto simp: download_file_def)
qed

lemma save_metadata_trace: "trace (save_metadata w p m st) = trace st"
proof -
  obtain r1 s1 where a1: "open_write w p st = (r1, s1)" by (cases "open_write w p st")
  have t1: "trace s1 = trace st" using open_write_trace[OF a1] .
  obtain r2 s2 where a2: "write_data w p (dumps w m) s1 = (r2, s2)" by (cases "write_data w p (dumps w m) s1")
  have t2: "trace s2 = trace st" using write_data_trace[OF a2] t1 by simp
  show ?thesis using a1 a2 t1 t2 by (cases r1) (simp_all add: save_metadata_def)
qed

lemma update_database_trace:
  assumes "update_database w db_name iid st = (r, st')"
  shows "(\<exists>e. r = Inl e \<and> trace st' = trace st) \<or>
         (r = Inr () \<and> (trace st' = trace st @ [StoreAppend (store_path db_name) (iid @ [CHR 0x0A]) True]
                       \<or> trace st' = trace st @ [StoreAppend (store_path db_name) (iid @ [CHR 0x0A]) False]))"
proof -
  obtain r1 s1 where a1: "mkdir w (path_of ''db'') st = (r1, s1)" by (cases "mkdir w (path_of ''db'') st")
  have t1: "trace s1 = trace st" using mkdir_trace[OF a1] .
  obtain r2 s2 where a2: "append_text w (store_path db_name) (iid @ [CHR 0x0A]) s1 = (r2, s2)"
    by (cases "append_text w (store_path db_name) (iid @ [CHR 0x0A]) s1")
  have t2: "trace s2 = trace st" using append_text_trace[OF a2] t1 by simp
  show ?thesis
  proof (cases r1)
    case (Inl e) then show ?thesis using assms a1 t1 by (auto simp add: update_database_def)
  next
    case (Inr u)
    then show ?thesis using assms a1 a2 t2
      by (cases r2) (auto simp: update_database_def store_path_def Let_def)
  qed
qed


subsection \<open>The item loop\<close>

lemma download_items_step:
  assumes ns: "\<not> skipped a"
    and run: "download_items w d label meta dbf db_name main_dir tot i c (a # rest) st = (r, st')"
  shows "\<exists>b s1 evs s2 c2 m.
           download_file w d (image_address a) (target_path w main_dir a) m st = (b, s1) \<and>
           ((\<not> b \<and> evs = [Download (image_address a) (target_path w main_dir a) False] \<and>
             download_items w d label meta dbf db_name main_dir tot (i + 1) c2 rest s2 = (r, st'))
            \<or> (b \<and> \<not> dbf \<and> evs = [Download (image_address a) (target_path w main_dir a) True] \<and>
             download_items w d label meta dbf db_name main_dir tot (i + 1) c2 rest s2 = (r, st'))
            \<or> (b \<and> dbf \<and> (\<exists>ok. evs = [Download (image_address a) (target_path w main_dir a) True,
                       StoreAppend (store_path db_name) (image_id a @ [CHR 0x0A]) ok]) \<and>
             download_items w d label meta dbf db_name main_dir tot (i + 1) c2 rest s2 = (r, st'))
            \<or> (b \<and> dbf \<and> evs = [Download (image_address a) (target_path w main_dir a) True] \<and>
                (\<exists>e. r = Inl e) \<and> s2 = st'))
           \<and> trace s2 = trace st @ evs"
proof -
  define m where "m = label @ ''Image '' @ image_id a @ '' ('' @ str_nat (i + 1) @ ''/''
                             @ str_nat tot @ '')''"
  define dm where "dm = ''Downloaded '' @ str_nat (i + 1) @ ''/'' @ str_nat tot @ '' images (''
                        @ str_nat (percent w (i + 1) tot) @ ''%)''"
  let ?p = "target_path w main_dir a"
  obtain b s1 where df: "download_file w d (image_address a) ?p m st = (b, s1)"
    by (cases "download_file w d (image_address a) ?p m st")
  have t1: "trace s1 = trace st @ [Download (image_address a) ?p b]"
    using download_file_trace[OF df] .
  show ?thesis
  proof (cases b)
    case False
    have "download_items w d label meta dbf db_name main_dir tot (i + 1) c rest (notify d dm s1) = (r, st')"
      using run ns df False by (simp add: Let_def m_def dm_def)
    then show ?thesis using df False t1
      by (intro exI[of _ b] exI[of _ s1] exI[of _ "[Download (image_address a) ?p False]"]
          exI[of _ "notify d dm s1"] exI[of _ c] exI[of _ m]) simp
  next
    case True
    define s2 where "s2 = (if meta \<and> truthy (meta_tags a)
                            then save_metadata w
                                   (path_join (path_join main_dir ''meta'') (image_id a @ ''.json''))
                                   (meta_tags a) s1
                            else s1)"
    have t2: "trace s2 = trace st @ [Download (image_address a) ?p True]"
      using t1 True by (simp add: s2_def save_metadata_trace)
    show ?thesis
    proof (cases dbf)
      case nodb: False
      have "download_items w d label meta dbf db_name main_dir tot (i + 1) (c + 1) rest (notify d dm s2) = (r, st')"
        using run ns df True nodb by (simp add: Let_def m_def dm_def s2_def)
      then show ?thesis using df True t2 nodb
        by (intro exI[of _ b] exI[of _ s1] exI[of _ "[Download (image_address a) ?p True]"]
            exI[of _ "notify d dm s2"] exI[of _ "c + 1"] exI[of _ m]) simp
    next
      case db: True
      obtain r3 s3 where ud: "update_database w db_name (image_id a) s2 = (r3, s3)"
        by (cases "update_database w db_name (image_id a) s2")
      from update_database_trace[OF ud] show ?thesis
      proof
        assume "\<exists>e. r3 = Inl e \<and> trace s3 = trace s2"
        then obtain e where e: "r3 = Inl e" "trace s3 = trace s2" by blast
        have "r = Inl e \<and> st' = s3"
          using run ns df True db ud e by (simp add: Let_def m_def dm_def s2_def)
        then show ?thesis using df True t2 db e
          by (intro exI[of _ b] exI[of _ s1] exI[of _ "[Download (image_address a) ?p True]"]
              exI[of _ s3] exI[of _ c] exI[of _ m]) simp
      next
        assume h: "r3 = Inr () \<and> (trace s3 = trace s2 @ [StoreAppend (store_path db_name) (image_id a @ [CHR 0x0A]) True]
                       \<or> trace s3 = trace s2 @ [StoreAppend (store_path db_name) (image_id a @ [CHR 0x0A]) False])"
        then obtain ok where ok: "trace s3 = trace s2 @ [StoreAppend (store_path db_name) (image_id a @ [CHR 0x0A]) ok]"
          by blast
        have "download_items w d label meta dbf db_name main_dir tot (i + 1) (c + 1) rest (notify d dm s3) = (r, st')"
          using run ns df True db ud h by (simp add: Let_def m_def dm_def s2_def)
        then show ?thesis using df True t2 db ok
          by (intro exI[of _ b] exI[of _ s1]
              exI[of _ "[Download (image_address a) ?p True, StoreAppend (store_path db_name) (image_id a @ [CHR 0x0A]) ok]"]
              exI[of _ "notify d dm s3"] exI[of _ "c + 1"] exI[of _ m]) auto
      qed
    qed
  qed
qed

subsection \<open>\<open>download_file\<close>\<close>

lemma get_proxy_fs: "get_proxy d st = (r, st') \<Longrightarrow> fs st' = fs st \<and> tick st' = tick st"
  by (auto simp: get_proxy_def split: if_splits)

text \<open>
  C10: when the server answers a download request with a status other than 200,
  \<open>download_file\<close> returns \<open>False\<close> and leaves the file system as it was: neither the
  target file nor its parent directory is created.
\<close>

theorem C10_non_200_leaves_fs:
  assumes "http w (tick st) u = Responds r" and "status_of r \<noteq> 200"
  shows "fst (download_file w d (JStr u) file_path progress_info st) = False \<and>
         fs (snd (download_file w d (JStr u) file_path progress_info st)) = fs st"
proof -
  let ?s1 = "notify d (''Downloading: '' @ progress_info) st"
  obtain pr s2 where gp: "get_proxy d ?s1 = (pr, s2)" by (cases "get_proxy d ?s1")
  from get_proxy_fs[OF gp] have s2: "fs s2 = fs st" "tick s2 = tick st" by simp_all
  show ?thesis
  proof (cases pr)
    case (Inl e)
    then show ?thesis using gp s2 by (simp add: download_file_def download_file_try_def)
  next
    case (Inr proxy)
    then show ?thesis using gp s2 assms
      by (simp add: download_file_def download_file_try_def session_get_def)
  qed
qed

theorem C10_non_200_witness:
  "fst (download_file (serving (\<lambda>n u. Responds not_found)) plain_downloader
          (JStr ''https://img.example/5.jpg'') (path_of ''media/cat/5.jpg'') ''5''
          (start_state empty_fs)) = False \<and>
   fs (snd (download_file (serving (\<lambda>n u. Responds not_found)) plain_downloader
          (JStr ''https://img.example/5.jpg'') (path_of ''media/cat/5.jpg'') ''5''
          (start_state empty_fs))) = fs (start_state empty_fs)"
proof -
  have h1: "http (serving (\<lambda>n u. Responds not_found)) (tick (start_state empty_fs))
              ''https://img.example/5.jpg'' = Responds not_found"
    by (simp add: serving_def)
  have h2: "status_of not_found \<noteq> 200" by (simp add: not_found_def)
  show ?thesis by (rule C10_non_200_leaves_fs[OF h1 h2])
qed


lemma download_items_raises:
  "download_items w d label meta dbf db_name main_dir tot i c xs st = (Inl e, st') \<Longrightarrow>
   dbf \<and> (\<exists>u p. trace st' \<noteq> [] \<and> last (trace st') = Download u p True)"
proof (induction xs arbitrary: i c st)
  case Nil
  then show ?case by simp
next
  case (Cons a rest)
  show ?case
  proof (cases "skipped a")
    case True
    then have "download_items w d label meta dbf db_name main_dir tot (i + 1) c rest st = (Inl e, st')"
      using Cons.prems by simp
    from Cons.IH[OF this] show ?thesis .
  next
    case False
    from download_items_step[OF False Cons.prems]
    obtain b s1 evs s2 c2 m where
      st: "trace s2 = trace st @ evs" and
      alt: "(download_items w d label meta dbf db_name main_dir tot (i + 1) c2 rest s2 = (Inl e, st'))
            \<or> (b \<and> dbf \<and> evs = [Download (image_address a) (target_path w main_dir a) True] \<and> s2 = st')"
      by blast
    from alt show ?thesis
    proof
      assume "download_items w d label meta dbf db_name main_dir tot (i + 1) c2 rest s2 = (Inl e, st')"
      from Cons.IH[OF this] show ?thesis .
    next
      assume "b \<and> dbf \<and> evs = [Download (image_address a) (target_path w main_dir a) True] \<and> s2 = st'"
      then show ?thesis using st by auto
    qed
  qed
qed

lemma download_items_page_fetches:
  "download_items w d label meta dbf db_name main_dir tot i c xs st = (r, st') \<Longrightarrow>
   page_fetches st' = page_fetches st"
proof (induction xs arbitrary: i c st)
  case Nil
  then show ?case by simp
next
  case (Cons a rest)
  show ?case
  proof (cases "skipped a")
    case True
    then have "download_items w d label meta dbf db_name main_dir tot (i + 1) c rest st = (r, st')"
      using Cons.prems by simp
    from Cons.IH[OF this] show ?thesis .
  next
    case False
    from download_items_step[OF False Cons.prems]
    obtain b s1 evs s2 c2 m where
      st: "trace s2 = trace st @ evs" and
      ev: "list_all (\<lambda>ev. \<not> is_page_fetch ev) evs" and
      alt: "(download_items w d label meta dbf db_name main_dir tot (i + 1) c2 rest s2 = (r, st'))
            \<or> s2 = st'"
      by fastforce
    have s2: "page_fetches s2 = page_fetches st"
      using st ev by (simp add: page_fetches_def list_all_iff filter_empty_conv[THEN iffD2])
    from alt show ?thesis
    proof
      assume "download_items w d label meta dbf db_name main_dir tot (i + 1) c2 rest s2 = (r, st')"
      from Cons.IH[OF this] show ?thesis using s2 by simp
    next
      assume "s2 = st'" then show ?thesis using s2 by simp
    qed
  qed
qed

subsection \<open>Pages\<close>

lemma page_fetches_same: "trace st' = trace st \<Longrightarrow> page_fetches st' = page_fetches st"
  by (simp add: page_fetches_def)

lemma notify_page_fetches [simp]: "page_fetches (notify d m st) = page_fetches st"
  by (simp add: page_fetches_def)

lemma e621_download_page_images_cases:
  assumes "e621_download_page_images w d j approved st = (r, st')"
  shows "page_fetches st' = page_fetches st \<and>
         ((\<exists>e. r = Inl e \<and> trace st' = trace st)
          \<or> (\<exists>e u p. r = Inl e \<and> trace st' \<noteq> [] \<and> last (trace st') = Download u p True)
          \<or> r = Inr ())"
proof -
  define main_dir where "main_dir = e621_main_dir d j"
  obtain r1 s1 where a1: "mkdir_parents w main_dir st = (r1, s1)" by (cases "mkdir_parents w main_dir st")
  have t1: "trace s1 = trace st" using mkdir_parents_trace[OF a1] .
  obtain r2 s2 where a2: "(if ai_training j then mkdir_parents w (path_join main_dir ''meta'') s1
                    else (Inr (), s1)) = (r2, s2)"
    by (cases "(if ai_training j then mkdir_parents w (path_join main_dir ''meta'') s1
                    else (Inr (), s1))")
  have t2: "trace s2 = trace st" using a2 t1 mkdir_parents_trace
    by (auto split: if_splits)
  define s3 where "s3 = notify d (''Downloading '' @ str_nat (length approved) @ '' images...'') s2"
  have t3: "trace s3 = trace st" using t2 by (simp add: s3_def)
  obtain r4 s4 where a4: "download_items w d (tags j @ '' - '') (ai_training j) (db_file j)
                             (site j @ ''.db'') main_dir (length approved) 0 0 approved s3 = (r4, s4)"
    by (cases "download_items w d (tags j @ '' - '') (ai_training j) (db_file j)
                             (site j @ ''.db'') main_dir (length approved) 0 0 approved s3")
  have p4: "page_fetches s4 = page_fetches st"
    using download_items_page_fetches[OF a4] t3 by (simp add: page_fetches_def)
  show ?thesis
  proof (cases r1)
    case (Inl e)
    then show ?thesis using assms a1[unfolded main_dir_def] t1
      by (auto simp: e621_download_page_images_def Let_def page_fetches_def)
  next
    case r1: (Inr u1)
    show ?thesis
    proof (cases r2)
      case (Inl e)
      then show ?thesis using assms a1[unfolded main_dir_def] a2[unfolded main_dir_def] r1 t2
        by (auto simp: e621_download_page_images_def Let_def page_fetches_def)
    next
      case r2: (Inr u2)
      show ?thesis
      proof (cases r4)
        case (Inl e)
        then have "r = Inl e" "st' = s4" using assms a1[unfolded main_dir_def] a2[unfolded main_dir_def] a4[unfolded main_dir_def s3_def] r1 r2
          by (auto simp: e621_download_page_images_def Let_def page_fetches_def)
        then show ?thesis using p4 download_items_raises[OF a4[unfolded Inl]] by blast
      next
        case (Inr n)
        then have "r = Inr ()" "page_fetches st' = page_fetches s4" using assms a1[unfolded main_dir_def] a2[unfolded main_dir_def] a4[unfolded main_dir_def s3_def] r1 r2
          by (auto simp: e621_download_page_images_def Let_def page_fetches_def)
        then show ?thesis using p4 by simp
      qed
    qed
  qed
qed

lemma furbooru_download_page_images_cases:
  assumes "furbooru_download_page_images w d j approved st = (r, st')"
  shows "page_fetches st' = page_fetches st \<and>
         ((\<exists>e. r = Inl e \<and> trace st' = trace st)
          \<or> (\<exists>e u p. r = Inl e \<and> trace st' \<noteq> [] \<and> last (trace st') = Download u p True)
          \<or> r = Inr ())"
proof -
  define main_dir where "main_dir = furbooru_main_dir d j"
  obtain r1 s1 where a1: "mkdir_parents w main_dir st = (r1, s1)" by (cases "mkdir_parents w main_dir st")
  have t1: "trace s1 = trace st" using mkdir_parents_trace[OF a1] .
  define s3 where "s3 = notify d (''Downloading '' @ str_nat (length approved) @ '' images...'') s1"
  have t3: "trace s3 = trace st" using t1 by (simp add: s3_def)
  obtain r4 s4 where a4: "download_items w d ''Furbooru - '' False (db_file j)
                             ''furbooru.db'' main_dir (length approved) 0 0 approved s3 = (r4, s4)"
    by (cases "download_items w d ''Furbooru - '' False (db_file j)
                             ''furbooru.db'' main_dir (length approved) 0 0 approved s3")
  have p4: "page_fetches s4 = page_fetches st"
    using download_items_page_fetches[OF a4] t3 by (simp add: page_fetches_def)
  show ?thesis
  proof (cases r1)
    case (Inl e)
    then show ?thesis using assms a1[unfolded main_dir_def] t1
      by (auto simp: furbooru_download_page_images_def Let_def page_fetches_def)
  next
    case r1: (Inr u1)
    show ?thesis
    proof (cases r4)
      case (Inl e)
      then have "r = Inl e" "st' = s4" using assms a1[unfolded main_dir_def] a4[unfolded main_dir_def s3_def] r1
        by (auto simp: furbooru_download_page_images_def Let_def page_fetches_def)
      then show ?thesis using p4 download_items_raises[OF a4[unfolded Inl]] by blast
    next
      case (Inr n)
      then have "r = Inr ()" "page_fetches st' = page_fetches s4" using assms a1[unfolded main_dir_def] a4[unfolded main_dir_def s3_def] r1
        by (auto simp: furbooru_download_page_images_def Let_def page_fetches_def)
      then show ?thesis using p4 by simp
    qed
  qed
qed

lemma e621_page_cases:
  assumes "e621_page w d j ids page data st = (r, st')"
  shows "page_fetches st' = page_fetches st \<and>
         (page_limit_reached (max_pages j) page \<longrightarrow> r \<noteq> Inr Continue) \<and>
         (trace st' = trace st \<or> r = Inr Continue
          \<or> (\<exists>e u p. r = Inl e \<and> trace st' \<noteq> [] \<and> last (trace st') = Download u p True))"
proof -
  define bl where "bl = (case blacklist j of None \<Rightarrow> [] | Some b \<Rightarrow> b)"
  have early: "\<And>x. (r, st') = (x, st) \<Longrightarrow> x \<noteq> Inr Continue \<Longrightarrow> ?thesis"
    by (auto simp: page_fetches_def)
  have earlyn: "\<And>x m. (r, st') = (x, notify d m st) \<Longrightarrow> x \<noteq> Inr Continue \<Longrightarrow> ?thesis"
    by (auto simp: page_fetches_def)
  show ?thesis
  proof (cases "api_limit_message data")
    case (Inl e) then show ?thesis using assms early[of "Inl e"] by (auto simp add: e621_page_def)
  next
    case (Inr lim)
    show ?thesis
    proof (cases lim)
      case True then show ?thesis using assms Inr early[of "Inr Break"] by (auto simp add: e621_page_def)
    next
      case nolim: False
      show ?thesis
      proof (cases "py_get data ''posts'' (JList [])")
        case (Inl e) then show ?thesis using assms Inr nolim early[of "Inl e"] by (auto simp add: e621_page_def)
      next
        case posts: (Inr posts)
        show ?thesis
        proof (cases "\<not> truthy posts")
          case True then show ?thesis using assms Inr nolim posts earlyn[of "Inr Break"]
            by (auto simp add: e621_page_def)
        next
          case tr: False
          show ?thesis
          proof (cases "page_limit_reached (max_pages j) page")
            case True then show ?thesis using assms Inr nolim posts tr earlyn[of "Inr Break"]
              by (auto simp add: e621_page_def)
          next
            case nl: False
            show ?thesis
            proof (cases "py_iter posts")
              case (Inl e) then show ?thesis using assms Inr nolim posts tr nl early[of "Inl e"]
                by (auto simp add: e621_page_def)
            next
              case items: (Inr items)
              show ?thesis
              proof (cases "e621_approve w (site j) bl (ai_training j) (db_file j) ids items")
                case (Inl e) then show ?thesis using assms Inr nolim posts tr nl items early[of "Inl e"]
                  by (auto simp add: e621_page_def bl_def)
              next
                case appr: (Inr approved)
                obtain r1 s1 where a1: "(if approved \<noteq> [] then e621_download_page_images w d j approved st
                      else (Inr (), st)) = (r1, s1)"
                  by (cases "(if approved \<noteq> [] then e621_download_page_images w d j approved st
                      else (Inr (), st))")
                have c1: "page_fetches s1 = page_fetches st \<and>
                    ((\<exists>e. r1 = Inl e \<and> trace s1 = trace st)
                     \<or> (\<exists>e u p. r1 = Inl e \<and> trace s1 \<noteq> [] \<and> last (trace s1) = Download u p True)
                     \<or> r1 = Inr ())"
                  using a1 e621_download_page_images_cases by (auto split: if_splits)
                have res: "(r, st') = (case r1 of Inl e \<Rightarrow> (Inl e, s1)
                             | Inr u \<Rightarrow> (Inr Continue, notify d (''Page '' @ str_nat page @ '' completed'') s1))"
                  using assms Inr nolim posts tr nl items appr a1
                  by (simp add: e621_page_def bl_def split: sum.splits)
                show ?thesis using c1 res nl by (cases r1) auto
              qed
            qed
          qed
        qed
      qed
    qed
  qed
qed

lemma furbooru_page_cases:
  assumes "furbooru_page w d j ids page data st = (r, st')"
  shows "page_fetches st' = page_fetches st \<and>
         (page_limit_reached (max_pages j) page \<longrightarrow> r \<noteq> Inr Continue) \<and>
         (trace st' = trace st \<or> r = Inr Continue
          \<or> (\<exists>e u p. r = Inl e \<and> trace st' \<noteq> [] \<and> last (trace st') = Download u p True))"
proof -
  define bl where "bl = (case blacklist j of None \<Rightarrow> [] | Some b \<Rightarrow> b)"
  have early: "\<And>x. (r, st') = (x, st) \<Longrightarrow> x \<noteq> Inr Continue \<Longrightarrow> ?thesis"
    by (auto simp: page_fetches_def)
  have earlyn: "\<And>x m. (r, st') = (x, notify d m st) \<Longrightarrow> x \<noteq> Inr Continue \<Longrightarrow> ?thesis"
    by (auto simp: page_fetches_def)
  show ?thesis
  proof (cases "py_get data ''total'' (JInt 0)")
    case (Inl e) then show ?thesis using assms early[of "Inl e"] by (auto simp add: furbooru_page_def)
  next
    case tot: (Inr tf)
    show ?thesis
    proof (cases "equals_zero tf")
      case True then show ?thesis using assms tot earlyn[of "Inr Break"] by (auto simp add: furbooru_page_def)
    next
      case nz: False
      show ?thesis
      proof (cases "page_limit_reached (max_pages j) page")
        case True then show ?thesis using assms tot nz earlyn[of "Inr Break"]
          by (auto simp add: furbooru_page_def)
      next
        case nl: False
        show ?thesis
        proof (cases "py_get data ''images'' (JList [])")
          case (Inl e) then show ?thesis using assms tot nz nl early[of "Inl e"]
            by (auto simp add: furbooru_page_def)
        next
          case images: (Inr images)
          show ?thesis
          proof (cases "py_iter images")
            case (Inl e) then show ?thesis using assms tot nz nl images early[of "Inl e"]
              by (auto simp add: furbooru_page_def)
          next
            case items: (Inr items)
            show ?thesis
            proof (cases "furbooru_approve w bl (db_file j) ids items")
              case (Inl e) then show ?thesis using assms tot nz nl images items early[of "Inl e"]
                by (auto simp add: furbooru_page_def bl_def)
            next
              case appr: (Inr approved)
              obtain r1 s1 where a1: "(if approved \<noteq> [] then furbooru_download_page_images w d j approved st
                    else (Inr (), st)) = (r1, s1)"
                by (cases "(if approved \<noteq> [] then furbooru_download_page_images w d j approved st
                    else (Inr (), st))")
              have c1: "page_fetches s1 = page_fetches st \<and>
                  ((\<exists>e. r1 = Inl e \<and> trace s1 = trace st)
                   \<or> (\<exists>e u p. r1 = Inl e \<and> trace s1 \<noteq> [] \<and> last (trace s1) = Download u p True)
                   \<or> r1 = Inr ())"
                using a1 furbooru_download_page_images_cases by (auto split: if_splits)
              have res: "(r, st') = (case r1 of Inl e \<Rightarrow> (Inl e, s1)
                           | Inr u \<Rightarrow> (Inr Continue, notify d (''Page '' @ str_nat page @ '' completed'') s1))"
                using assms tot nz nl images items appr a1
                by (simp add: furbooru_page_def bl_def split: sum.splits)
              show ?thesis using c1 res nl by (cases r1) auto
            qed
          qed
        qed
      qed
    qed
  qed
qed

subsection \<open>Rounds and the page limit\<close>

lemma while_true_bounded:
  assumes step: "\<And>v st r st'. body v st = (r, st') \<Longrightarrow>
            (\<forall>v'. r = Inr (Continue, v') \<longrightarrow> m v' < m v \<and> cost st' + c v' \<le> cost st + c v) \<and>
            ((\<forall>v'. r \<noteq> Inr (Continue, v')) \<longrightarrow> cost st' \<le> cost st + c v)"
  shows "m v < fuel \<Longrightarrow>
         \<exists>r st'. while_true body fuel v st = (Some r, st') \<and> cost st' \<le> cost st + (c v :: nat)"
proof (induction fuel arbitrary: v st)
  case 0
  then show ?case by simp
next
  case (Suc fuel)
  obtain r s1 where b: "body v st = (r, s1)" by (cases "body v st")
  note s = step[OF b]
  show ?case
  proof (cases r)
    case (Inl e)
    then have "cost s1 \<le> cost st + c v" using s by simp
    then show ?thesis using b Inl by simp
  next
    case (Inr sv)
    obtain sp v1 where sv: "sv = (sp, v1)" by (cases sv)
    show ?thesis
    proof (cases sp)
      case Break
      then have "cost s1 \<le> cost st + c v" using s Inr sv by simp
      then show ?thesis using b Inr sv Break by simp
    next
      case Continue
      then have m: "m v1 < m v" and cst: "cost s1 + c v1 \<le> cost st + c v"
        using s Inr sv by simp_all
      from m Suc.prems have "m v1 < fuel" by simp
      from Suc.IH[OF this, of s1] obtain r' st' where
        w: "while_true body fuel v1 s1 = (Some r', st')" and c': "cost st' \<le> cost s1 + c v1"
        by blast
      have "while_true body (Suc fuel) v st = (Some r', st')"
        using b Inr sv Continue w by simp
      moreover have "cost st' \<le> cost st + c v" using c' cst by simp
      ultimately show ?thesis by blast
    qed
  qed
qed

lemma emit_page_fetch [simp]: "page_fetches (emit (PageFetch u) st) = page_fetches st + 1"
  by (simp add: page_fetches_def)

lemma fetch_posts_fetches:
  "fetch_posts w url st = (r, st') \<Longrightarrow> page_fetches st' = page_fetches st + 1"
proof -
  assume a: "fetch_posts w url st = (r, st')"
  obtain r1 s1 where g: "session_get w (JStr url) (emit (PageFetch url) st) = (r1, s1)"
    by (cases "session_get w (JStr url) (emit (PageFetch url) st)")
  have "page_fetches s1 = page_fetches st + 1"
    using page_fetches_same[OF session_get_trace[OF g]] by simp
  moreover have "st' = s1" using a g
    by (auto simp: fetch_posts_def split: http_result.splits if_splits sum.splits)
  ultimately show ?thesis by simp
qed

lemma e621_round_cases:
  assumes "e621_round w d j ids page st = (r, st')"
  shows "page_fetches st' = page_fetches st + 1 \<and>
         (\<forall>v'. r = Inr (Continue, v') \<longrightarrow> v' = page + 1 \<and> \<not> page_limit_reached (max_pages j) page)"
proof -
  define s1 where "s1 = notify d (''Fetching page '' @ str_nat page @ ''...'') st"
  define url where "url = ''https://'' @ site j @ ''.net/posts.json?tags='' @ tags j
                    @ ''&limit=320&page='' @ str_nat page"
  obtain r2 s2 where f: "fetch_posts w url s1 = (r2, s2)" by (cases "fetch_posts w url s1")
  have p2: "page_fetches s2 = page_fetches st + 1"
    using fetch_posts_fetches[OF f] by (simp add: s1_def)
  have run: "(r, st') = (case r2 of None \<Rightarrow> (Inr (Break, page), s2)
               | Some data \<Rightarrow> (case e621_page w d j ids page data s2 of
                    (Inl e, st3) \<Rightarrow> (Inl e, st3)
                  | (Inr Break, st3) \<Rightarrow> (Inr (Break, page), st3)
                  | (Inr Continue, st3) \<Rightarrow> (Inr (Continue, page + 1), st3)))"
    using assms f[unfolded s1_def url_def] by (simp add: e621_round_def Let_def)
  show ?thesis
  proof (cases r2)
    case None
    then show ?thesis using run p2 by simp
  next
    case (Some data)
    obtain r3 s3 where pg: "e621_page w d j ids page data s2 = (r3, s3)"
      by (cases "e621_page w d j ids page data s2")
    from e621_page_cases[OF pg] have
      p3: "page_fetches s3 = page_fetches s2" and
      lim: "page_limit_reached (max_pages j) page \<longrightarrow> r3 \<noteq> Inr Continue" by simp_all
    show ?thesis using run Some pg p2 p3 lim
      by (auto split: sum.splits step.splits)
  qed
qed

lemma furbooru_round_cases:
  assumes "furbooru_round w d j ids page st = (r, st')"
  shows "page_fetches st' = page_fetches st + 1 \<and>
         (\<forall>v'. r = Inr (Continue, v') \<longrightarrow> v' = page + 1 \<and> \<not> page_limit_reached (max_pages j) page)"
proof -
  define s1 where "s1 = notify d (''Fetching page '' @ str_nat page @ ''...'') st"
  define url where "url = ''https://furbooru.org/api/v1/json/search/images?q='' @ py_replace CHR '' '' '', '' (tags j)
                    @ ''&page='' @ str_nat page @ ''&per_page=50''
                    @ (case api_key j of
                         None \<Rightarrow> []
                       | Some k \<Rightarrow> if k = [] then [] else ''&key='' @ k)"
  obtain r2 s2 where f: "fetch_posts w url s1 = (r2, s2)" by (cases "fetch_posts w url s1")
  have p2: "page_fetches s2 = page_fetches st + 1"
    using fetch_posts_fetches[OF f] by (simp add: s1_def)
  have run: "(r, st') = (case r2 of None \<Rightarrow> (Inr (Break, page), s2)
               | Some data \<Rightarrow> (case furbooru_page w d j ids page data s2 of
                    (Inl e, st3) \<Rightarrow> (Inl e, st3)
                  | (Inr Break, st3) \<Rightarrow> (Inr (Break, page), st3)
                  | (Inr Continue, st3) \<Rightarrow> (Inr (Continue, page + 1), st3)))"
    using assms f[unfolded s1_def url_def] by (simp add: furbooru_round_def Let_def)
  show ?thesis
  proof (cases r2)
    case None
    then show ?thesis using run p2 by simp
  next
    case (Some data)
    obtain r3 s3 where pg: "furbooru_page w d j ids page data s2 = (r3, s3)"
      by (cases "furbooru_page w d j ids page data s2")
    from furbooru_page_cases[OF pg] have
      p3: "page_fetches s3 = page_fetches s2" and
      lim: "page_limit_reached (max_pages j) page \<longrightarrow> r3 \<noteq> Inr Continue" by simp_all
    show ?thesis using run Some pg p2 p3 lim
      by (auto split: sum.splits step.splits)
  qed
qed

lemma limit_loop_bounded:
  assumes rounds: "\<And>page st r st'. body page st = (r, st') \<Longrightarrow>
             page_fetches st' = page_fetches st + 1 \<and>
             (\<forall>v'. r = Inr (Continue, v') \<longrightarrow> v' = page + 1 \<and> \<not> page_limit_reached (Some k) page)"
    and k: "1 \<le> k" and fuel: "nat k < fuel"
  shows "\<exists>r st'. while_true body fuel 1 st = (Some r, st') \<and>
           page_fetches st' \<le> page_fetches st + nat k"
proof -
  define m where "m = (\<lambda>page. nat k + 1 - page)"
  define c where "c = (\<lambda>page. max 1 (nat k + 1 - page))"
  have step: "\<And>v st r st'. body v st = (r, st') \<Longrightarrow>
            (\<forall>v'. r = Inr (Continue, v') \<longrightarrow> m v' < m v \<and> page_fetches st' + c v' \<le> page_fetches st + c v) \<and>
            ((\<forall>v'. r \<noteq> Inr (Continue, v')) \<longrightarrow> page_fetches st' \<le> page_fetches st + c v)"
  proof -
    fix v st r st'
    assume b: "body v st = (r, st')"
    from rounds[OF b] have pf: "page_fetches st' = page_fetches st + 1"
      and cont: "\<forall>v'. r = Inr (Continue, v') \<longrightarrow> v' = v + 1 \<and> \<not> page_limit_reached (Some k) v"
      by simp_all
    show "(\<forall>v'. r = Inr (Continue, v') \<longrightarrow> m v' < m v \<and> page_fetches st' + c v' \<le> page_fetches st + c v) \<and>
            ((\<forall>v'. r \<noteq> Inr (Continue, v')) \<longrightarrow> page_fetches st' \<le> page_fetches st + c v)"
    proof (intro conjI allI impI)
      fix v' assume r: "r = Inr (Continue, v')"
      with cont have v': "v' = v + 1" and nl: "\<not> page_limit_reached (Some k) v" by simp_all
      from nl k have "int v < k" by (simp add: page_limit_reached_def)
      then have lt: "v < nat k" by linarith
      show "m v' < m v" using v' lt by (simp add: m_def) linarith
      show "page_fetches st' + c v' \<le> page_fetches st + c v" using v' lt pf by (simp add: c_def)
    next
      show "page_fetches st' \<le> page_fetches st + c v" using pf by (simp add: c_def)
    qed
  qed
  have "m 1 < fuel" using fuel by (simp add: m_def)
  from while_true_bounded[of body m page_fetches c, OF step this, of st]
  obtain r st' where "while_true body fuel 1 st = (Some r, st')"
    "page_fetches st' \<le> page_fetches st + c 1" by blast
  moreover have "c 1 = nat k" using k by (simp add: c_def)
  ultimately show ?thesis by auto
qed

lemma load_downloaded_ids_trace:
  "load_downloaded_ids w dbf p st = (r, st') \<Longrightarrow> trace st' = trace st"
proof -
  assume a: "load_downloaded_ids w dbf p st = (r, st')"
  obtain r1 s1 where rt: "read_text w p st = (r1, s1)" by (cases "read_text w p st")
  have "trace s1 = trace st" using read_text_trace[OF rt] .
  then show ?thesis using a rt
    by (auto simp: load_downloaded_ids_def split: if_splits sum.splits)
qed

lemma catch_all_fetches:
  "fst r = Some x \<Longrightarrow>
   fst (catch_all d r) \<noteq> None \<and> page_fetches (snd (catch_all d r)) = page_fetches (snd r)"
  by (cases r) (auto simp: catch_all_def split: sum.splits)

lemma e621_limit:
  assumes mp: "max_pages j = Some k" and k: "1 \<le> k" and fuel: "nat k < fuel"
  shows "fst (e621_download_by_tags w d j fuel st) \<noteq> None \<and>
         page_fetches (snd (e621_download_by_tags w d j fuel st)) \<le> page_fetches st + nat k"
proof -
  define s1 where "s1 = notify d (''Starting '' @ site j @ '' download for tags: '' @ tags j) st"
  obtain r2 s2 where l: "load_downloaded_ids w (db_file j) (path_join (path_of ''db'') (site j @ ''.db'')) s1 = (r2, s2)"
    by (cases "load_downloaded_ids w (db_file j) (path_join (path_of ''db'') (site j @ ''.db'')) s1")
  have p2: "page_fetches s2 = page_fetches st"
    using page_fetches_same[OF load_downloaded_ids_trace[OF l]] by (simp add: s1_def)
  have "\<exists>x. fst (e621_try w d j fuel st) = Some x \<and>
            page_fetches (snd (e621_try w d j fuel st)) \<le> page_fetches st + nat k"
  proof (cases r2)
    case (Inl e)
    then show ?thesis using l[unfolded s1_def] p2 by (simp add: e621_try_def Let_def)
  next
    case (Inr ids)
    have "\<exists>r st'. while_true (e621_round w d j ids) fuel 1 s2 = (Some r, st') \<and>
           page_fetches st' \<le> page_fetches s2 + nat k"
    proof (rule limit_loop_bounded[OF _ k fuel])
      fix page st r st'
      assume a: "e621_round w d j ids page st = (r, st')"
      show "page_fetches st' = page_fetches st + 1 \<and>
             (\<forall>v'. r = Inr (Continue, v') \<longrightarrow> v' = page + 1 \<and> \<not> page_limit_reached (Some k) page)"
        using e621_round_cases[OF a] by (simp add: mp)
    qed
    then obtain r3 s3 where w3: "while_true (e621_round w d j ids) fuel 1 s2 = (Some r3, s3)"
      and p3: "page_fetches s3 \<le> page_fetches st + nat k" using p2 by auto
    show ?thesis using l[unfolded s1_def] Inr w3 p3
      by (cases r3) (simp_all add: e621_try_def e621_loop_def Let_def)
  qed
  then show ?thesis
    using catch_all_fetches[of "e621_try w d j fuel st" _ d]
    by (auto simp: e621_download_by_tags_def)
qed

lemma furbooru_limit:
  assumes mp: "max_pages j = Some k" and k: "1 \<le> k" and fuel: "nat k < fuel"
  shows "fst (furbooru_download_by_tags w d j fuel st) \<noteq> None \<and>
         page_fetches (snd (furbooru_download_by_tags w d j fuel st)) \<le> page_fetches st + nat k"
proof -
  define s1 where "s1 = notify d (''Starting Furbooru download for tags: '' @ tags j) st"
  obtain r2 s2 where l: "load_downloaded_ids w (db_file j) (path_join (path_of ''db'') ''furbooru.db'') s1 = (r2, s2)"
    by (cases "load_downloaded_ids w (db_file j) (path_join (path_of ''db'') ''furbooru.db'') s1")
  have p2: "page_fetches s2 = page_fetches st"
    using page_fetches_same[OF load_downloaded_ids_trace[OF l]] by (simp add: s1_def)
  have "\<exists>x. fst (furbooru_try w d j fuel st) = Some x \<and>
            page_fetches (snd (furbooru_try w d j fuel st)) \<le> page_fetches st + nat k"
  proof (cases r2)
    case (Inl e)
    then show ?thesis using l[unfolded s1_def] p2 by (simp add: furbooru_try_def Let_def)
  next
    case (Inr ids)
    have "\<exists>r st'. while_true (furbooru_round w d j ids) fuel 1 s2 = (Some r, st') \<and>
           page_fetches st' \<le> page_fetches s2 + nat k"
    proof (rule limit_loop_bounded[OF _ k fuel])
      fix page st r st'
      assume a: "furbooru_round w d j ids page st = (r, st')"
      show "page_fetches st' = page_fetches st + 1 \<and>
             (\<forall>v'. r = Inr (Continue, v') \<longrightarrow> v' = page + 1 \<and> \<not> page_limit_reached (Some k) page)"
        using furbooru_round_cases[OF a] by (simp add: mp)
    qed
    then obtain r3 s3 where w3: "while_true (furbooru_round w d j ids) fuel 1 s2 = (Some r3, s3)"
      and p3: "page_fetches s3 \<le> page_fetches st + nat k" using p2 by auto
    show ?thesis using l[unfolded s1_def] Inr w3 p3
      by (cases r3) (simp_all add: furbooru_try_def Let_def)
  qed
  then show ?thesis
    using catch_all_fetches[of "furbooru_try w d j fuel st" _ d]
    by (auto simp: furbooru_download_by_tags_def)
qed

lemma fetch_json_trace: "fetch_json w d url st = (r, st') \<Longrightarrow> trace st' = trace st"
proof -
  assume a: "fetch_json w d url st = (r, st')"
  obtain r1 s1 where g: "get_proxy d st = (r1, s1)" by (cases "get_proxy d st")
  have t1: "trace s1 = trace st" using get_proxy_trace[OF g] .
  obtain r2 s2 where sg: "session_get w (JStr url) s1 = (r2, s2)" by (cases "session_get w (JStr url) s1")
  have t2: "trace s2 = trace st" using session_get_trace[OF sg] t1 by simp
  show ?thesis using a g sg t1 t2
    by (auto simp: fetch_json_def split: sum.splits http_result.splits if_splits)
qed

lemma rule34_items_page_fetches:
  "rule34_items w d dir page n i c items st = (r, st') \<Longrightarrow> page_fetches st' = page_fetches st"
proof (induction items arbitrary: i c st)
  case Nil
  then show ?case by simp
next
  case (Cons item rest)
  show ?case
  proof (cases "rule34_target w dir item")
    case (Inl e)
    then show ?thesis using Cons.prems by simp
  next
    case (Inr t)
    show ?thesis
    proof (cases t)
      case None
      then have "rule34_items w d dir page n (i + 1) c rest st = (r, st')"
        using Cons.prems Inr by simp
      from Cons.IH[OF this] show ?thesis .
    next
      case (Some up)
      obtain image_url file_path where up: "up = (image_url, file_path)" by (cases up)
      show ?thesis
      proof (cases "path_exists (fs st) file_path")
        case True
        then have "rule34_items w d dir page n (i + 1) c rest st = (r, st')"
          using Cons.prems Inr Some up by simp
        from Cons.IH[OF this] show ?thesis .
      next
        case False
        define info where "info = ''Rule34 - Page '' @ str_nat page @ '' - Image ''
                                 @ str_nat (i + 1) @ ''/'' @ str_nat n"
        obtain ok s1 where df: "download_file w d image_url file_path info st = (ok, s1)"
          by (cases "download_file w d image_url file_path info st")
        have p1: "page_fetches s1 = page_fetches st"
          using download_file_trace[OF df] by (simp add: page_fetches_def)
        define c2 where "c2 = (if ok then c + 1 else c)"
        have "rule34_items w d dir page n (i + 1) c2 rest
                (notify d (''Downloaded '' @ str_nat c2 @ '' images so far...'') s1) = (r, st')"
          using Cons.prems Inr Some up False df[unfolded info_def]
          by (simp add: Let_def c2_def)
        from Cons.IH[OF this] show ?thesis using p1 by simp
      qed
    qed
  qed
qed

lemma rule34_round_cases:
  assumes "rule34_round w d tgs mp dir v st = (r, st')"
  shows "page_fetches st' \<le> page_fetches st + (if page_limit_passed mp (fst v) then 0 else 1) \<and>
         (\<forall>v'. r = Inr (Continue, v') \<longrightarrow> fst v' = fst v + 1 \<and> \<not> page_limit_passed mp (fst v))"
proof (cases "page_limit_passed mp (fst v)")
  case True
  then show ?thesis using assms by (auto simp: rule34_round_def Let_def)
next
  case np: False
  define s1 where "s1 = notify d (''Fetching page '' @ str_nat (fst v) @ ''...'') st"
  define url where "url = ''https://api.rule34.xxx/index.php?page=dapi&s=post&q=index&pid=''
                          @ str_nat (fst v) @ ''&limit=1000&json=1&tags='' @ tgs"
  obtain r2 s2 where f: "fetch_json w d url (emit (PageFetch url) s1) = (r2, s2)"
    by (cases "fetch_json w d url (emit (PageFetch url) s1)")
  have p2: "page_fetches s2 = page_fetches st + 1"
    using page_fetches_same[OF fetch_json_trace[OF f]] by (simp add: s1_def)
  have run: "(r, st') =
     (case r2 of None \<Rightarrow> (Inr (Break, v), s2)
      | Some data \<Rightarrow>
         if \<not> truthy data then (Inr (Break, v), s2)
         else (case data of
                 JList items \<Rightarrow>
                   (let st3 = notify d (''Found '' @ str_nat (length items)
                                               @ '' images on page '' @ str_nat (fst v)) s2
                    in case rule34_items w d dir (fst v) (length items) 0 (snd v) items st3 of
                         (Inl e, st4) \<Rightarrow> (Inl e, st4)
                       | (Inr c, st4) \<Rightarrow>
                           if length items < 1000 then (Inr (Break, (fst v + 1, c)), st4)
                           else (Inr (Continue, (fst v + 1, c)), st4))
               | _ \<Rightarrow> (Inr (Break, v), notify d ''No more images found'' s2)))"
    using assms np f[unfolded s1_def url_def] by (simp add: rule34_round_def Let_def)
  show ?thesis
  proof (cases r2)
    case None
    then show ?thesis using run p2 np by simp
  next
    case (Some data)
    show ?thesis
    proof (cases "truthy data")
      case False
      then show ?thesis using run Some p2 np by simp
    next
      case tr: True
      show ?thesis
      proof (cases "\<exists>items. data = JList items")
        case False
        then have "(r, st') = (Inr (Break, v), notify d ''No more images found'' s2)"
          using run Some tr by (cases data) simp_all
        then show ?thesis using p2 np by simp
      next
        case True
        then obtain items where items: "data = JList items" by blast
        define s3 where "s3 = notify d (''Found '' @ str_nat (length items)
                                               @ '' images on page '' @ str_nat (fst v)) s2"
        obtain r4 s4 where it: "rule34_items w d dir (fst v) (length items) 0 (snd v) items s3 = (r4, s4)"
          by (cases "rule34_items w d dir (fst v) (length items) 0 (snd v) items s3")
        have p4: "page_fetches s4 = page_fetches st + 1"
          using rule34_items_page_fetches[OF it] p2 by (simp add: s3_def)
        have "(r, st') = (case r4 of Inl e \<Rightarrow> (Inl e, s4)
                 | Inr c \<Rightarrow> if length items < 1000 then (Inr (Break, (fst v + 1, c)), s4)
                           else (Inr (Continue, (fst v + 1, c)), s4))"
          using run Some tr items it[unfolded s3_def] by (simp add: Let_def split: sum.splits)
        then show ?thesis using p4 np by (cases r4) (auto split: if_splits)
      qed
    qed
  qed
qed

lemma rule34_limit:
  assumes mp: "max_pages j = Some k" and k: "1 \<le> k" and fuel: "nat k < fuel"
  shows "fst (download_rule34_tags w d j fuel st) \<noteq> None \<and>
         page_fetches (snd (download_rule34_tags w d j fuel st)) \<le> page_fetches st + nat k"
proof -
  define s1 where "s1 = notify d ''Starting Rule34 download...'' st"
  define dir where "dir = path_join (path_join (output_dir j) ''rule34'')
       (if sanitize_filename (tags j) = [] then ''all'' else sanitize_filename (tags j))"
  obtain r2 s2 where mk: "mkdir_parents w dir s1 = (r2, s2)" by (cases "mkdir_parents w dir s1")
  have p2: "page_fetches s2 = page_fetches st"
    using page_fetches_same[OF mkdir_parents_trace[OF mk]] by (simp add: s1_def)
  define m where "m = (\<lambda>v :: nat \<times> nat. nat k + 1 - fst v)"
  have step: "\<And>v st r st'. rule34_round w d (tags j) (Some k) dir v st = (r, st') \<Longrightarrow>
            (\<forall>v'. r = Inr (Continue, v') \<longrightarrow> m v' < m v \<and> page_fetches st' + m v' \<le> page_fetches st + m v) \<and>
            ((\<forall>v'. r \<noteq> Inr (Continue, v')) \<longrightarrow> page_fetches st' \<le> page_fetches st + m v)"
  proof -
    fix v st r st'
    assume b: "rule34_round w d (tags j) (Some k) dir v st = (r, st')"
    from rule34_round_cases[OF b] have
      pf: "page_fetches st' \<le> page_fetches st + (if page_limit_passed (Some k) (fst v) then 0 else 1)"
      and cont: "\<forall>v'. r = Inr (Continue, v') \<longrightarrow> fst v' = fst v + 1 \<and> \<not> page_limit_passed (Some k) (fst v)"
      by simp_all
    show "(\<forall>v'. r = Inr (Continue, v') \<longrightarrow> m v' < m v \<and> page_fetches st' + m v' \<le> page_fetches st + m v) \<and>
            ((\<forall>v'. r \<noteq> Inr (Continue, v')) \<longrightarrow> page_fetches st' \<le> page_fetches st + m v)"
    proof (intro conjI allI impI)
      fix v' assume r: "r = Inr (Continue, v')"
      with cont have v': "fst v' = fst v + 1" and nl: "\<not> page_limit_passed (Some k) (fst v)" by simp_all
      from nl k have "int (fst v) \<le> k" by (simp add: page_limit_passed_def)
      then have le: "fst v \<le> nat k" by linarith
      show "m v' < m v" using v' le unfolding m_def by linarith
      show "page_fetches st' + m v' \<le> page_fetches st + m v" using v' le pf nl unfolding m_def by simp
    next
      show "page_fetches st' \<le> page_fetches st + m v"
      proof (cases "page_limit_passed (Some k) (fst v)")
        case True then show ?thesis using pf by simp
      next
        case False
        with k have "int (fst v) \<le> k" by (simp add: page_limit_passed_def)
        then have "fst v \<le> nat k" by linarith
        then show ?thesis using pf False unfolding m_def by simp
      qed
    qed
  qed
  have "\<exists>x. fst (rule34_try w d (tags j) (max_pages j) (output_dir j) fuel st) = Some x \<and>
            page_fetches (snd (rule34_try w d (tags j) (max_pages j) (output_dir j) fuel st))
              \<le> page_fetches st + nat k"
  proof (cases r2)
    case (Inl e)
    then show ?thesis using mk[unfolded s1_def dir_def] p2 by (simp add: rule34_try_def Let_def)
  next
    case (Inr u)
    have "m (1, 0) < fuel" using fuel by (simp add: m_def)
    from while_true_bounded[of "rule34_round w d (tags j) (Some k) dir" m page_fetches m,
        OF step this, of s2]
    obtain r3 s3 where w3: "while_true (rule34_round w d (tags j) (Some k) dir) fuel (1, 0) s2 = (Some r3, s3)"
      and p3: "page_fetches s3 \<le> page_fetches s2 + m (1, 0)" by blast
    have p3': "page_fetches s3 \<le> page_fetches st + nat k" using p3 p2 by (simp add: m_def)
    show ?thesis using mk[unfolded s1_def dir_def] Inr w3[unfolded dir_def] p3' mp
      by (cases r3) (simp_all add: rule34_try_def Let_def)
  qed
  then show ?thesis
    using catch_all_fetches[of "rule34_try w d (tags j) (max_pages j) (output_dir j) fuel st" _ d]
    by (auto simp: download_rule34_tags_def rule34_download_by_tags_def)
qed

subsection \<open>The page limit\<close>

text \<open>
  C3, as stated, fails for \<open>k = 0\<close>: \<open>max_pages and ...\<close> reads a limit of 0 as no limit.
  With \<open>max_pages = 0\<close> the e621 loop fetches page 1, downloads its post and fetches page 2.
\<close>

theorem C3_page_limit_counterexample:
  "max_pages (tag_job ''e621'' [] (Some 0) False) = Some 0 \<and>
   fst (e621_download_by_tags (e621_site [e621_post 10 [''cat'']] []) plain_downloader
          (tag_job ''e621'' [] (Some 0) False) 5 (start_state empty_fs)) = Some True \<and>
   page_fetches (snd (e621_download_by_tags (e621_site [e621_post 10 [''cat'']] [])
          plain_downloader (tag_job ''e621'' [] (Some 0) False) 5 (start_state empty_fs))) = 2"
  by code_simp

text \<open>
  C3 (amended): for every tag-search job whose \<open>max_pages\<close> is a number \<open>k \<ge> 1\<close>, the loops
  of the e621, Furbooru and Rule34 downloaders end (within \<open>k + 1\<close> rounds) after at most \<open>k\<close>
  page fetches, whatever the server answers.
\<close>

theorem C3_page_limit:
  assumes "max_pages j = Some k" and "1 \<le> k" and "nat k < fuel"
  shows "(fst (e621_download_by_tags w d j fuel st) \<noteq> None \<and>
          page_fetches (snd (e621_download_by_tags w d j fuel st)) \<le> page_fetches st + nat k) \<and>
         (fst (furbooru_download_by_tags w d j fuel st) \<noteq> None \<and>
          page_fetches (snd (furbooru_download_by_tags w d j fuel st)) \<le> page_fetches st + nat k) \<and>
         (fst (download_rule34_tags w d j fuel st) \<noteq> None \<and>
          page_fetches (snd (download_rule34_tags w d j fuel st)) \<le> page_fetches st + nat k)"
  using e621_limit[OF assms] furbooru_limit[OF assms] rule34_limit[OF assms] by blast

theorem C3_page_limit_witness:
  "(fst (e621_download_by_tags rule34_world plain_downloader
           (tag_job ''e621'' [] (Some 3) False) 4 (start_state empty_fs)) \<noteq> None \<and>
    page_fetches (snd (e621_download_by_tags rule34_world plain_downloader
           (tag_job ''e621'' [] (Some 3) False) 4 (start_state empty_fs)))
      \<le> page_fetches (start_state empty_fs) + nat 3) \<and>
   (fst (furbooru_download_by_tags rule34_world plain_downloader
           (tag_job ''e621'' [] (Some 3) False) 4 (start_state empty_fs)) \<noteq> None \<and>
    page_fetches (snd (furbooru_download_by_tags rule34_world plain_downloader
           (tag_job ''e621'' [] (Some 3) False) 4 (start_state empty_fs)))
      \<le> page_fetches (start_state empty_fs) + nat 3) \<and>
   (fst (download_rule34_tags rule34_world plain_downloader
           (tag_job ''e621'' [] (Some 3) False) 4 (start_state empty_fs)) \<noteq> None \<and>
    page_fetches (snd (download_rule34_tags rule34_world plain_downloader
           (tag_job ''e621'' [] (Some 3) False) 4 (start_state empty_fs)))
      \<le> page_fetches (start_state empty_fs) + nat 3)"
proof -
  have h1: "max_pages (tag_job ''e621'' [] (Some 3) False) = Some 3" by (simp add: tag_job_def)
  have h2: "(1::int) \<le> 3" by simp
  have h3: "nat 3 < (4::nat)" by simp
  show ?thesis by (rule C3_page_limit[OF h1 h2 h3])
qed

text \<open>
  C4: the e621 loop tests the page limit before it looks at the posts of the page it has just
  fetched. With \<open>max_pages = 1\<close> and one downloadable post on page 1, the run fetches the
  page, reports \<open>Finished downloading 1 of 1 pages.\<close> and ends without a single download.
\<close>

theorem C4_e621_limit_page_not_processed:
  "fst (e621_download_by_tags (e621_site [e621_post 10 [''cat'']] []) plain_downloader
          (tag_job ''e621'' [] (Some 1) False) 5 (start_state empty_fs)) = Some True \<and>
   trace (snd (e621_download_by_tags (e621_site [e621_post 10 [''cat'']] []) plain_downloader
          (tag_job ''e621'' [] (Some 1) False) 5 (start_state empty_fs)))
     = [PageFetch ''https://e621.net/posts.json?tags=cat&limit=320&page=1''] \<and>
   progress (snd (e621_download_by_tags (e621_site [e621_post 10 [''cat'']] []) plain_downloader
          (tag_job ''e621'' [] (Some 1) False) 5 (start_state empty_fs)))
     = [''Starting e621 download for tags: cat'', ''Fetching page 1...'',
        ''Finished downloading 1 of 1 pages.'', ''Download complete for tags: cat'']"
  by code_simp

subsection \<open>Failed downloads\<close>




subsection \<open>The result of an e621 run\<close>

text \<open>
  C8: whenever the \<open>try\<close> block of the e621 downloader runs to its end without an exception,
  the run returns \<open>True\<close>, whatever was or was not downloaded.
\<close>

theorem C8_e621_returns_true:
  assumes "fst (e621_try w d j fuel st) = Some (Inr b)"
  shows "b = True \<and>
         e621_download_by_tags w d j fuel st = (Some True, snd (e621_try w d j fuel st))"
proof -
  define s1 where "s1 = notify d (''Starting '' @ site j @ '' download for tags: '' @ tags j) st"
  obtain r2 s2 where l: "load_downloaded_ids w (db_file j) (path_join (path_of ''db'') (site j @ ''.db'')) s1 = (r2, s2)"
    by (cases "load_downloaded_ids w (db_file j) (path_join (path_of ''db'') (site j @ ''.db'')) s1")
  have b: "b = True"
  proof (cases r2)
    case (Inl e)
    then show ?thesis using assms l[unfolded s1_def] by (simp add: e621_try_def Let_def)
  next
    case (Inr ids)
    obtain r3 s3 where w3: "e621_loop w d j ids fuel 1 s2 = (r3, s3)"
      by (cases "e621_loop w d j ids fuel 1 s2")
    show ?thesis using assms l[unfolded s1_def] Inr w3
      by (auto simp: e621_try_def Let_def split: option.splits sum.splits)
  qed
  obtain r st' where t: "e621_try w d j fuel st = (r, st')" by (cases "e621_try w d j fuel st")
  then have "r = Some (Inr True)" using assms b by simp
  then show ?thesis using b t by (simp add: e621_download_by_tags_def catch_all_def)
qed

lemma capped_run:
  "(case e621_try (e621_site [e621_post 10 [''cat'']] []) plain_downloader
           (tag_job ''e621'' [] (Some 1) False) 5 (start_state empty_fs) of
      (r, st') \<Rightarrow> r = Some (Inr True) \<and> filter is_download (trace st') = [])"
  by code_simp

theorem C8_e621_returns_true_witness:
  "e621_download_by_tags (e621_site [e621_post 10 [''cat'']] []) plain_downloader
     (tag_job ''e621'' [] (Some 1) False) 5 (start_state empty_fs)
   = (Some True, snd (e621_try (e621_site [e621_post 10 [''cat'']] []) plain_downloader
        (tag_job ''e621'' [] (Some 1) False) 5 (start_state empty_fs))) \<and>
   filter is_download (trace (snd (e621_try (e621_site [e621_post 10 [''cat'']] [])
        plain_downloader (tag_job ''e621'' [] (Some 1) False) 5 (start_state empty_fs)))) = []"
proof -
  have h: "fst (e621_try (e621_site [e621_post 10 [''cat'']] []) plain_downloader
             (tag_job ''e621'' [] (Some 1) False) 5 (start_state empty_fs)) = Some (Inr True)"
    using capped_run by (simp add: case_prod_beta)
  have z: "filter is_download (trace (snd (e621_try (e621_site [e621_post 10 [''cat'']] [])
        plain_downloader (tag_job ''e621'' [] (Some 1) False) 5 (start_state empty_fs)))) = []"
    using capped_run by (simp add: case_prod_beta)
  from C8_e621_returns_true[OF h] z show ?thesis by (rule conjI[OF conjunct2])
qed

subsection \<open>Blacklist and Seen-ID store\<close>

text \<open>
  What the e621 and Furbooru filters let through: never a post with a blacklisted tag among
  its collected tags, and, with the store in use, never a post whose id is in the loaded store.
\<close>

lemma e621_approve_sound:
  "e621_approve w s bl ait dbf ids items = Inr approved \<Longrightarrow> a \<in> set approved \<Longrightarrow>
   \<exists>item \<in> set items. e621_check_post w s bl ait dbf ids item = Inr (Some a)"
proof (induction items arbitrary: approved)
  case Nil
  then show ?case by simp
next
  case (Cons item items)
  then show ?case
    by (auto split: sum.splits option.splits)
qed

lemma e621_check_post_filters:
  assumes "e621_check_post w s bl ait dbf ids item = Inr (Some a)"
  shows "(\<exists>ts. e621_post_tags s item = Inr ts \<and> (\<forall>b \<in> set bl. JStr b \<notin> set ts)) \<and>
         (dbf \<longrightarrow> image_id a \<notin> set ids)"
  using assms
  by (auto simp: e621_check_post_def Let_def filter_empty_conv
      split: sum.splits if_splits)

lemma furbooru_approve_sound:
  "furbooru_approve w bl dbf ids items = Inr approved \<Longrightarrow> a \<in> set approved \<Longrightarrow>
   \<exists>item \<in> set items. furbooru_check_image w bl dbf ids item = Inr (Some a)"
proof (induction items arbitrary: approved)
  case Nil
  then show ?case by simp
next
  case (Cons item items)
  then show ?case
    by (auto split: sum.splits option.splits)
qed

lemma furbooru_check_image_filters:
  assumes "furbooru_check_image w bl dbf ids item = Inr (Some a)"
  shows "(\<exists>tv ts. py_get item ''tags'' (JList []) = Inr tv \<and> py_iter tv = Inr ts \<and>
            (\<forall>b \<in> set bl. JStr b \<notin> set ts)) \<and>
         (dbf \<longrightarrow> image_id a \<notin> set ids)"
  using assms
  by (auto simp: furbooru_check_image_def list_ex_iff
      split: sum.splits if_splits)

text \<open>
  Two e621 runs in a row against the same server, with the store in use: the first downloads
  post 10 and records it, the second loads the store, fetches the page and downloads nothing.
\<close>

lemma e621_second_run_skips_seen:
  "(case e621_download_by_tags (e621_site [e621_post 10 [''cat'']] []) plain_downloader
           (tag_job ''e621'' [] None True) 5 (start_state empty_fs) of
      (r1, st1) \<Rightarrow>
        (case e621_download_by_tags (e621_site [e621_post 10 [''cat'']] []) plain_downloader
                (tag_job ''e621'' [] None True) 5 (st1\<lparr>tick := 0, trace := []\<rparr>) of
           (r2, st2) \<Rightarrow>
             r1 = Some True \<and>
             filter is_download (trace st1)
               = [Download (JStr ''https://img.example/10.png'')
                    (path_of ''media/04-11-2026_10-00-00_cat/10.png'') True] \<and>
             files (fs st1) (path_of ''db/e621.db'') = Some (''10'' @ [CHR 0x0A]) \<and>
             r2 = Some True \<and>
             trace st2 = [PageFetch ''https://e621.net/posts.json?tags=cat&limit=320&page=1'',
                          PageFetch ''https://e621.net/posts.json?tags=cat&limit=320&page=2'']))"
  by code_simp

text \<open>
  C1: \<open>download_rule34_tags\<close> accepts a blacklist and drops it. With the blacklist
  \<open>gore\<close> and a server whose only post carries the tags \<open>cat gore\<close>, the post is downloaded
  and its file written.
\<close>

theorem C1_rule34_downloads_blacklisted:
  "blacklist (tag_job ''rule34'' [''gore''] None True) = Some [''gore''] \<and>
   py_getitem rule34_post ''tags'' = Inr (JStr ''cat gore'') \<and>
   (case download_rule34_tags rule34_world plain_downloader
           (tag_job ''rule34'' [''gore''] None True) 3 (start_state empty_fs) of
      (r, st') \<Rightarrow>
        r = Some True \<and>
        trace st' =
          [PageFetch (''https://api.rule34.xxx/index.php?page=dapi&s=post&q=index&pid=1''
                      @ ''&limit=1000&json=1&tags=cat''),
           Download (JStr ''https://img.example/5.jpg'') (path_of ''media/rule34/cat/5.jpg'') True] \<and>
        files (fs st') (path_of ''media/rule34/cat/5.jpg'') = Some ''bytes'')"
  by code_simp


subsection \<open>The download queue\<close>

lemma py_strip_Nil [simp]: "py_strip [] = []" by (simp add: py_strip_def)
lemma py_lower_Nil [simp]: "py_lower [] = []" by (simp add: py_lower_def)

lemma has_key_gives_key: "has_key t \<Longrightarrow> \<exists>k. get_unique_key t = Inr k"
  by (auto simp: has_key_def get_unique_key_def Let_def split: option.splits)

lemma same_identity_same_key:
  assumes "has_key a" and "has_key b" and "same_identity a b"
  shows "\<exists>k. get_unique_key a = Inr k \<and> get_unique_key b = Inr k"
proof (cases "task_type a = ''url''")
  case True
  then show ?thesis using assms
    by (auto simp: has_key_def same_identity_def get_unique_key_def Let_def)
next
  case False
  have tg: "\<And>t. (case task_tags t of None \<Rightarrow> [] | Some s \<Rightarrow> if s = [] then [] else py_strip (py_lower s))
             = py_strip (py_lower (case task_tags t of None \<Rightarrow> [] | Some s \<Rightarrow> s))"
    by (auto split: option.splits)
  have pg: "\<And>t. pages_text (task_max_pages t) = (case page_limit_of t of None \<Rightarrow> ''unlimited'' | Some k \<Rightarrow> str_int k)"
    by (auto simp: pages_text_def page_limit_of_def split: option.splits)
  from False assms(3) have b: "task_type b \<noteq> ''url''" and s: "task_site a = task_site b"
    and q: "py_strip (py_lower (case task_tags a of None \<Rightarrow> [] | Some s \<Rightarrow> s))
              = py_strip (py_lower (case task_tags b of None \<Rightarrow> [] | Some s \<Rightarrow> s))"
    and p: "page_limit_of a = page_limit_of b"
    by (simp_all add: same_identity_def)
  show ?thesis using False b s q p
    by (simp add: get_unique_key_def Let_def tg pg)
qed

lemma scan_queue_result:
  assumes "get_unique_key t = Inr k" and "list_all has_key q"
  shows "scan_queue t q dup = (Inr (dup \<or> list_ex (\<lambda>x. get_unique_key x = Inr k) q), [])"
  using assms(2)
proof (induction q arbitrary: dup)
  case Nil
  then show ?case by simp
next
  case (Cons x q)
  from Cons.prems have hx: "has_key x" and hq: "list_all has_key q" by simp_all
  from has_key_gives_key[OF hx] obtain kx where kx: "get_unique_key x = Inr kx" by blast
  have "task_eq t x = Inr (k = kx)" using assms(1) kx by (simp add: task_eq_def)
  then show ?case using Cons.IH[OF hq] kx by auto
qed

text \<open>
  C6, as stated, fails for URLs: the code lower-cases a URL and strips its trailing slashes
  but, unlike the tag text, does not trim it. A URL that differs from a queued one only by
  a space at its end has the same identity in the words of the claim, and is accepted.
\<close>

theorem C6_untrimmed_url_counterexample:
  "claimed_identity (url_task ''2'' ''luscious'' ''https://luscious.net/albums/x_1/ '')
     = claimed_identity (url_task ''1'' ''luscious'' ''https://luscious.net/albums/x_1/'') \<and>
   download_queue (snd (add_to_queue
       (Some (url_task ''2'' ''luscious'' ''https://luscious.net/albums/x_1/ ''))
       (idle_app [url_task ''1'' ''luscious'' ''https://luscious.net/albums/x_1/'']
          (Some (tags_task ''0'' ''e621'' ''cat'' None)))))
     = [url_task ''1'' ''luscious'' ''https://luscious.net/albums/x_1/'',
        url_task ''2'' ''luscious'' ''https://luscious.net/albums/x_1/ '']"
  by code_simp

text \<open>
  C6 (amended): adding a task whose identity, as the code normalises it (site, mode, the
  tag text lower-cased and trimmed or the URL lower-cased with its trailing slashes
  stripped, and the page limit of a tag search), equals that of the running task or of a
  queued task is rejected: the user is warned, and the queue, the running task and the
  started tasks stay as they were. Tasks that differ only in the letter case of the query
  have the same identity. (Every task here has a key, as every task built by
  \<open>_create_download_task\<close> has.)
\<close>

theorem C6_duplicate_rejected:
  assumes new: "has_key t"
    and cur: "case current_download_info a of None \<Rightarrow> True | Some c \<Rightarrow> has_key c"
    and queue: "list_all has_key (download_queue a)"
    and dup: "(case current_download_info a of None \<Rightarrow> False | Some c \<Rightarrow> same_identity t c)
              \<or> list_ex (same_identity t) (download_queue a)"
  shows "add_to_queue (Some t) a = (Inr (), a\<lparr>notices := notices a @ [DuplicateWarning t]\<rparr>)"
proof -
  from has_key_gives_key[OF new] obtain k where k: "get_unique_key t = Inr k" by blast
  have scan: "scan_queue t (download_queue a) False
                = (Inr (list_ex (\<lambda>x. get_unique_key x = Inr k) (download_queue a)), [])"
    using scan_queue_result[OF k queue, of False] by simp
  have inq: "list_ex (same_identity t) (download_queue a) \<Longrightarrow>
             list_ex (\<lambda>x. get_unique_key x = Inr k) (download_queue a)"
  proof -
    assume "list_ex (same_identity t) (download_queue a)"
    then obtain x where x: "x \<in> set (download_queue a)" "same_identity t x"
      by (auto simp: list_ex_iff)
    from queue x(1) have "has_key x" by (simp add: list_all_iff)
    from same_identity_same_key[OF new this x(2)] k have "get_unique_key x = Inr k" by auto
    with x(1) show ?thesis by (auto simp: list_ex_iff)
  qed
  have "is_duplicate_task t a = (Inr True, a)"
  proof (cases "current_download_info a")
    case None
    then have "list_ex (same_identity t) (download_queue a)" using dup by simp
    from inq[OF this] show ?thesis using None scan by (simp add: is_duplicate_task_def)
  next
    case (Some c)
    then have hc: "has_key c" using cur by simp
    from has_key_gives_key[OF hc] obtain kc where kc: "get_unique_key c = Inr kc" by blast
    have eq: "task_eq t c = Inr (k = kc)" using k kc by (simp add: task_eq_def)
    show ?thesis
    proof (cases "k = kc")
      case True
      then show ?thesis using Some eq by (simp add: is_duplicate_task_def)
    next
      case False
      have "\<not> same_identity t c"
        using same_identity_same_key[OF new hc] k kc False by auto
      then have "list_ex (same_identity t) (download_queue a)" using dup Some by simp
      from inq[OF this] show ?thesis using Some eq False scan by (simp add: is_duplicate_task_def)
    qed
  qed
  then show ?thesis by (simp add: add_to_queue_def)
qed

theorem C6_duplicate_rejected_witness:
  "add_to_queue (Some (tags_task ''2'' ''e621'' ''CAT dog'' None))
     (idle_app [tags_task ''1'' ''e621'' ''cat dog'' None] None)
   = (Inr (),
      (idle_app [tags_task ''1'' ''e621'' ''cat dog'' None] None)
        \<lparr>notices := notices (idle_app [tags_task ''1'' ''e621'' ''cat dog'' None] None)
                      @ [DuplicateWarning (tags_task ''2'' ''e621'' ''CAT dog'' None)]\<rparr>)"
proof -
  have h1: "has_key (tags_task ''2'' ''e621'' ''CAT dog'' None)" by code_simp
  have h2: "case current_download_info (idle_app [tags_task ''1'' ''e621'' ''cat dog'' None] None)
            of None \<Rightarrow> True | Some c \<Rightarrow> has_key c"
    by (simp add: idle_app_def)
  have h3: "list_all has_key (download_queue (idle_app [tags_task ''1'' ''e621'' ''cat dog'' None] None))"
    by code_simp
  have "list_ex (same_identity (tags_task ''2'' ''e621'' ''CAT dog'' None))
          (download_queue (idle_app [tags_task ''1'' ''e621'' ''cat dog'' None] None))"
    by code_simp
  then have h4: "(case current_download_info (idle_app [tags_task ''1'' ''e621'' ''cat dog'' None] None)
                  of None \<Rightarrow> False | Some c \<Rightarrow> same_identity (tags_task ''2'' ''e621'' ''CAT dog'' None) c)
              \<or> list_ex (same_identity (tags_task ''2'' ''e621'' ''CAT dog'' None))
                   (download_queue (idle_app [tags_task ''1'' ''e621'' ''cat dog'' None] None))"
    by (rule disjI2)
  show ?thesis by (rule C6_duplicate_rejected[OF h1 h2 h3 h4])
qed

subsection \<open>Exceptions of a run\<close>


lemma no_fuel_simps [simp]: "fst (no_fuel r) = Some (fst r)" "snd (no_fuel r) = snd r"
  by (simp_all add: no_fuel_def)





end
